theory Spec2Isabelle
  imports Main "HOL-Library.Finite_Map" "HOL-Library.Multiset"
begin


section \<open>Go's strconv on base-10 int64 strings\<close>

text \<open>
  \<^verbatim>\<open>strconv.ParseInt(s, 10, 64)\<close> and \<^verbatim>\<open>strconv.FormatInt(v, 10)\<close> of the Go standard
  library, as the memory state provider and the instance reconciler call them. An int64
  is an \<open>int\<close> in the range \<open>-2^63 .. 2^63 - 1\<close>; addition wraps as Go's does.
\<close>

datatype NumError = ErrSyntax | ErrRange

definition maxUint64 :: nat where
  "maxUint64 = 2 ^ 64 - 1"

definition cutoff63 :: nat where
  "cutoff63 = 2 ^ 63"

definition isDigit :: "char \<Rightarrow> bool" where
  "isDigit c = (48 \<le> (of_char c :: nat) \<and> (of_char c :: nat) \<le> 57)"

definition digitVal :: "char \<Rightarrow> nat" where
  "digitVal c = (of_char c :: nat) - 48"

fun ParseUint_loop :: "nat \<Rightarrow> string \<Rightarrow> NumError + nat" where
  "ParseUint_loop n [] = Inr n"
| "ParseUint_loop n (c # cs) =
     (if \<not> isDigit c then Inl ErrSyntax
      else if n * 10 + digitVal c > maxUint64 then Inl ErrRange
      else ParseUint_loop (n * 10 + digitVal c) cs)"

definition ParseUint :: "string \<Rightarrow> NumError + nat" where
  "ParseUint s = (if s = [] then Inl ErrSyntax else ParseUint_loop 0 s)"

definition ParseInt :: "string \<Rightarrow> NumError + int" where
  "ParseInt s =
     (if s = [] then Inl ErrSyntax
      else
        let neg = (hd s = CHR ''-'');
            s1 = (if hd s = CHR ''+'' \<or> hd s = CHR ''-'' then tl s else s)
        in case ParseUint s1 of
             Inl ErrSyntax \<Rightarrow> Inl ErrSyntax
           | Inl ErrRange \<Rightarrow> Inl ErrRange
           | Inr un \<Rightarrow>
               if \<not> neg \<and> un \<ge> cutoff63 then Inl ErrRange
               else if neg \<and> un > cutoff63 then Inl ErrRange
               else Inr (if neg then - int un else int un))"

definition digits :: string where
  "digits = ''0123456789''"

function formatBits :: "nat \<Rightarrow> string" where
  "formatBits n =
     (if n < 10 then [digits ! n]
      else formatBits (n div 10) @ [digits ! (n mod 10)])"
  by pat_completeness auto
termination
  by (relation "measure id") auto

definition FormatInt :: "int \<Rightarrow> string" where
  "FormatInt i = (if i < 0 then CHR ''-'' # formatBits (nat (- i)) else formatBits (nat i))"

definition int64_add :: "int \<Rightarrow> int \<Rightarrow> int" where
  "int64_add a b = (a + b + 2 ^ 63) mod 2 ^ 64 - 2 ^ 63"

definition is_int64 :: "int \<Rightarrow> bool" where
  "is_int64 i = (- (2 ^ 63) \<le> i \<and> i < 2 ^ 63)"

section \<open>Values held behind Go's \<^verbatim>\<open>interface{}\<close>\<close>

text \<open>
  A state entry's body is an \<^verbatim>\<open>interface{}\<close>. \<open>GMap\<close> is a (non-nil)
  \<^verbatim>\<open>map[string]interface{}\<close>, \<open>GStruct\<close> any other value that encoding/json writes as an
  object (a struct, with its JSON field names), \<open>GNil\<close> the nil interface. Numbers are kept
  as integers; float64 rounding of \<^verbatim>\<open>json.Unmarshal\<close> is not modelled.
  \<open>json_roundtrip\<close> is \<^verbatim>\<open>json.Marshal\<close> followed by \<^verbatim>\<open>json.Unmarshal\<close> into an
  \<^verbatim>\<open>interface{}\<close>: every object comes back as a map.
\<close>

datatype gval =
    GNil
  | GBool bool
  | GNum int
  | GStr string
  | GList "gval list"
  | GMap "(string, gval) fmap"
  | GStruct "(string, gval) fmap"

primrec json_roundtrip :: "gval \<Rightarrow> gval" where
  "json_roundtrip GNil = GNil"
| "json_roundtrip (GBool b) = GBool b"
| "json_roundtrip (GNum n) = GNum n"
| "json_roundtrip (GStr s) = GStr s"
| "json_roundtrip (GList xs) = GList (map json_roundtrip xs)"
| "json_roundtrip (GMap m) = GMap (fmmap json_roundtrip m)"
| "json_roundtrip (GStruct m) = GMap (fmmap json_roundtrip m)"

text \<open>
  \<^verbatim>\<open>var mapType map[string]interface{}; json.Unmarshal(jBody, &mapType)\<close> with the error
  dropped: the map when the JSON is an object, the nil map (\<open>None\<close>) otherwise.
\<close>

definition unmarshal_map :: "gval \<Rightarrow> (string, gval) fmap option" where
  "unmarshal_map body = (case json_roundtrip body of GMap m \<Rightarrow> Some m | _ \<Rightarrow> None)"

text \<open>Indexing a possibly nil map: a missing key and a nil map both read as nil.\<close>

definition map_index :: "(string, gval) fmap option \<Rightarrow> string \<Rightarrow> gval" where
  "map_index m k =
     (case m of None \<Rightarrow> GNil
      | Some mm \<Rightarrow> (case fmlookup mm k of None \<Rightarrow> GNil | Some v \<Rightarrow> v))"

section \<open>Errors\<close>

text \<open>
  Modelled from the spec: the State codes and COAError of package v1alpha2, whose source is
  not part of the files at hand. The spec gives OK(200) and Accepted(202) and names the
  kinds NotFound, BadRequest, BadConfig and InternalError; the remaining numbers are the
  HTTP codes of the same names. An error built by \<^verbatim>\<open>NewCOAError(nil, msg, state)\<close>
  carries the message and the state; \<^verbatim>\<open>errors.New(msg)\<close> is a \<open>PlainError\<close>.
\<close>

type_synonym State = nat

definition OK :: State where "OK = 200"
definition Accepted :: State where "Accepted = 202"
definition BadRequest :: State where "BadRequest = 400"
definition NotFound :: State where "NotFound = 404"
definition InternalError :: State where "InternalError = 500"

datatype error = COAError string State | PlainError string

fun ErrorText :: "error \<Rightarrow> string" where
  "ErrorText (COAError msg st) = msg"
| "ErrorText (PlainError msg) = msg"

section \<open>MemoryStateProvider.Upsert\<close>

record StateEntry =
  ID :: string
  Body :: gval
  ETag :: string

record UpsertOption =
  UpdateStateOnly :: bool

record UpsertRequest =
  Value :: StateEntry
  Options :: UpsertOption

text \<open>
  \<^verbatim>\<open>Data map[string]interface{}\<close>: a stored value is a \<^verbatim>\<open>states.StateEntry\<close> or something
  else (the field is public). Bodies are held by value; two entries sharing one Go map
  object are not modelled.
\<close>

datatype stored = Entry StateEntry | NotAnEntry

type_synonym store = "string \<rightharpoonup> stored"

datatype outcome = Returned string | Failed error | Panicked

definition next_etag :: "string \<Rightarrow> string" where
  "next_etag etag =
     (if etag \<noteq> [] then
        (case ParseInt etag of Inr v \<Rightarrow> FormatInt (int64_add v 1) | Inl _ \<Rightarrow> ''1'')
      else ''1'')"

definition is_nil :: "gval option \<Rightarrow> bool" where
  "is_nil v = (v = None \<or> v = Some GNil)"

text \<open>
  Lines 112 to 124 of Upsert. The existing body map is mutated in place, so the store is
  returned also where the code panics: \<open>Inl\<close> is the panic with the store as it stands.
\<close>

definition merge_status ::
  "string \<Rightarrow> StateEntry \<Rightarrow> gval \<Rightarrow> store \<Rightarrow> store + (string, gval) fmap" where
  "merge_status key existingEntry newBody s =
     (case Body existingEntry of
        GMap mapRef \<Rightarrow>
          let mapType = unmarshal_map newBody;
              mapRef1 = (if is_nil (fmlookup mapRef ''status'')
                         then fmupd ''status'' (GMap fmempty) mapRef else mapRef);
              s1 = s(key \<mapsto> Entry (existingEntry\<lparr>Body := GMap mapRef1\<rparr>))
          in (case map_index mapType ''status'' of
                GMap newStatus \<Rightarrow>
                  if newStatus = fmempty then Inr mapRef1
                  else (case fmlookup mapRef1 ''status'' of
                          Some (GMap oldStatus) \<Rightarrow>
                            Inr (fmupd ''status'' (GMap (oldStatus ++\<^sub>f newStatus)) mapRef1)
                        | _ \<Rightarrow> Inl s1)
              | _ \<Rightarrow> Inl s1)
      | _ \<Rightarrow> Inl s)"

definition Upsert :: "store \<Rightarrow> UpsertRequest \<Rightarrow> outcome \<times> store" where
  "Upsert s entry =
     (let v = (Value entry)\<lparr>ETag := next_etag (ETag (Value entry))\<rparr> in
      if UpdateStateOnly (Options entry) then
        (case s (ID v) of
           None \<Rightarrow>
             (Failed (COAError (''entry '' @ [CHR 0x27] @ ID v @ [CHR 0x27] @ '' is not found'') NotFound), s)
         | Some NotAnEntry \<Rightarrow>
             (Failed (COAError (''entry '' @ [CHR 0x27] @ ID v @ [CHR 0x27] @ '' is not a valid state entry'') InternalError), s)
         | Some (Entry existingEntry) \<Rightarrow>
             (case merge_status (ID v) existingEntry (Body v) s of
                Inl s1 \<Rightarrow> (Panicked, s1)
              | Inr mapRef \<Rightarrow>
                  (Returned (ID v), s(ID v \<mapsto> Entry (v\<lparr>Body := GMap mapRef\<rparr>)))))
      else (Returned (ID v), s(ID v \<mapsto> Entry v)))"

definition stored_etag :: "store \<Rightarrow> string \<Rightarrow> string option" where
  "stored_etag s k = (case s k of Some (Entry e) \<Rightarrow> Some (ETag e) | _ \<Rightarrow> None)"

definition stored_body :: "store \<Rightarrow> string \<Rightarrow> gval option" where
  "stored_body s k = (case s k of Some (Entry e) \<Rightarrow> Some (Body e) | _ \<Rightarrow> None)"

section \<open>The instance reconciler's update path\<close>

text \<open>
  Lines 113 to 149 of InstanceReconciler.Reconcile. \<open>since\<close> is
  \<^verbatim>\<open>time.Since(summary.Time)\<close> in nanoseconds, read from the clock by the caller.
\<close>

definition generationMatch :: "string \<Rightarrow> int \<Rightarrow> bool" where
  "generationMatch generation instanceGeneration =
     (case ParseInt generation of Inr v \<Rightarrow> v = instanceGeneration | Inl _ \<Rightarrow> True)"

datatype update_action = UpdateInstanceStatus | QueueJob

definition second_ns :: int where
  "second_ns = 1000000000"

definition update_path :: "string \<Rightarrow> int \<Rightarrow> int \<Rightarrow> update_action" where
  "update_path generation instanceGeneration since =
     (if generationMatch generation instanceGeneration \<and> since \<le> 60 * second_ns
      then UpdateInstanceStatus else QueueJob)"

definition stored_field :: "store \<Rightarrow> string \<Rightarrow> string \<Rightarrow> gval option" where
  "stored_field s k f = (case stored_body s k of Some (GMap b) \<Rightarrow> fmlookup b f | _ \<Rightarrow> None)"

text \<open>The number a string of digits denotes, read left to right from an accumulator.\<close>

definition digitsValue :: "nat \<Rightarrow> string \<Rightarrow> nat" where
  "digitsValue a s = fold (\<lambda>c n. n * 10 + digitVal c) s a"

section \<open>The MQTT target provider\<close>

text \<open>
  The response handler registered by Init (lines 146 to 176) and Apply (lines 357 to 392).
  A payload is nil, a string, or the component list the handler decodes for Get; what
  \<^verbatim>\<open>fmt.Sprint\<close> prints for a component list is left open.
\<close>

record COAResponse =
  RespState :: State
  RespBody :: string
  RespMetadata :: "string \<rightharpoonup> string"

datatype payload = PNil | PString string | PComponents string

record ProxyResponse =
  IsOK :: bool
  PState :: State
  Payload :: payload

datatype chan = GetChan | RemoveChan | NeedsUpdateChan | NeedsRemoveChan | ApplyChan

fun Sprint :: "payload \<Rightarrow> string" where
  "Sprint PNil = ''<nil>''"
| "Sprint (PString s) = s"

definition proxyResponse :: "COAResponse \<Rightarrow> ProxyResponse" where
  "proxyResponse response =
     (let isOK = (RespState response = OK \<or> RespState response = Accepted) in
      \<lparr>IsOK = isOK, PState = RespState response,
       Payload = (if \<not> isOK then PString (RespBody response) else PNil)\<rparr>)"

text \<open>The channel a response is sent to, with the value sent; \<open>None\<close> when no case matches.\<close>

definition on_message :: "COAResponse \<Rightarrow> (chan \<times> ProxyResponse) option" where
  "on_message response =
     (let p = proxyResponse response in
      case RespMetadata response ''call-context'' of
        None \<Rightarrow> None
      | Some cc \<Rightarrow>
          if cc = ''TargetProvider-Get'' then
            Some (GetChan, if IsOK p then p\<lparr>Payload := PComponents (RespBody response)\<rparr> else p)
          else if cc = ''TargetProvider-Remove'' then Some (RemoveChan, p)
          else if cc = ''TargetProvider-NeedsUpdate'' then Some (NeedsUpdateChan, p)
          else if cc = ''TargetProvider-NeedsRemove'' then Some (NeedsRemoveChan, p)
          else if cc = ''TargetProvider-Apply'' then Some (ApplyChan, p)
          else None)"

text \<open>
  \<^verbatim>\<open>select { case resp := <-ch: ... case <-time.After(d): ... }\<close>. The environment says
  when, in nanoseconds after the timer was started, a value is offered on the channel
  (\<open>None\<close>: never). Before the deadline the receive fires, after it the timer; when
  both are ready at the same instant Go picks either, which is \<open>pick\<close>.
\<close>

definition select_recv :: "int \<Rightarrow> (int \<times> 'a) option \<Rightarrow> bool \<Rightarrow> 'a option" where
  "select_recv d arrival pick =
     (case arrival of
        None \<Rightarrow> None
      | Some (t, r) \<Rightarrow> if t < d then Some r else if t = d \<and> pick then Some r else None)"

definition apply_deadline :: int where
  "apply_deadline = 8 * second_ns"

text \<open>
  \<open>publishError\<close> is \<^verbatim>\<open>token.Error()\<close> of the Publish call (\<open>None\<close>: published). The
  result is the error Apply returns, \<open>None\<close> for nil.
\<close>

definition mqtt_Apply ::
  "error option \<Rightarrow> (int \<times> ProxyResponse) option \<Rightarrow> bool \<Rightarrow> error option" where
  "mqtt_Apply publishError arrival pick =
     (case publishError of
        Some e \<Rightarrow> Some e
      | None \<Rightarrow>
          (case select_recv apply_deadline arrival pick of
             Some resp \<Rightarrow>
               if IsOK resp then None
               else Some (COAError (Sprint (Payload resp)) (PState resp))
           | None \<Rightarrow>
               Some (COAError (''didn'' @ [CHR 0x27] @ ''t get response to Apply() call over MQTT'')
                       InternalError)))"

section \<open>The deployment model\<close>

text \<open>
  Modelled from the spec: the types of package model (ComponentSpec, the component action,
  DeploymentStep, DeploymentState, the summary types), declared outside the files at hand.
  The fields are those the solution manager reads and writes; an action is update or
  delete; \<open>TargetComponent\<close> maps \<open>component::target\<close> to a role, and a Go map read
  of a missing key gives the empty string.
\<close>

record ComponentSpec =
  Name :: string
  Type :: string
  Properties :: "(string, gval) fmap"
  Dependencies :: "string list"

datatype ComponentAction = ComponentUpdate | ComponentDelete

record ComponentStep =
  Action :: ComponentAction
  Component :: ComponentSpec

record DeploymentStep =
  Target :: string
  StepComponents :: "ComponentStep list"
  Role :: string

record DeploymentState =
  StateComponents :: "ComponentSpec list"
  TargetComponent :: "string \<rightharpoonup> string"

definition map_get :: "(string \<rightharpoonup> string) \<Rightarrow> string \<Rightarrow> string" where
  "map_get m k = (case m k of None \<Rightarrow> [] | Some v \<Rightarrow> v)"

definition HasPrefix :: "string \<Rightarrow> string \<Rightarrow> bool" where
  "HasPrefix s p = (take (length p) s = p)"

definition target_key :: "string \<Rightarrow> string \<Rightarrow> string" where
  "target_key name target = name @ ''::'' @ target"

section \<open>canSkipStep\<close>

text \<open>
  The inner loop of the delete branch: \<open>True\<close> when it reaches \<^verbatim>\<open>return false\<close>, that
  is when a current component of that name exists and the key is bound.
\<close>

primrec delete_pending :: "string \<Rightarrow> string \<Rightarrow> ComponentSpec list \<Rightarrow> bool" where
  "delete_pending name role [] = False"
| "delete_pending name role (c # cs) =
     (if Name c = name \<and> role \<noteq> [] then True else delete_pending name role cs)"

text \<open>
  The inner loop of the update branch: the component at which \<^verbatim>\<open>found\<close> is set, the
  first one of that name while the key is bound to a role without the \<open>-\<close> prefix. The
  loop leaves at that component, by \<^verbatim>\<open>return false\<close> or by \<^verbatim>\<open>break\<close>.
\<close>

primrec find_current :: "string \<Rightarrow> string \<Rightarrow> ComponentSpec list \<Rightarrow> ComponentSpec option" where
  "find_current name role [] = None"
| "find_current name role (c # cs) =
     (if Name c = name \<and> role \<noteq> [] \<and> \<not> HasPrefix role ''-'' then Some c
      else find_current name role cs)"

text \<open>
  \<open>changed\<close> is \<^verbatim>\<open>provider.GetValidationRule(ctx).IsComponentChanged\<close>, a rule of the
  provider.
\<close>

primrec canSkip_loop ::
  "(ComponentSpec \<Rightarrow> ComponentSpec \<Rightarrow> bool) \<Rightarrow> ComponentStep list \<Rightarrow> string
     \<Rightarrow> ComponentSpec list \<Rightarrow> DeploymentState \<Rightarrow> bool" where
  "canSkip_loop changed [] target currentComponents state = True"
| "canSkip_loop changed (newCom # rest) target currentComponents state =
     (let key = target_key (Name (Component newCom)) target;
          role = map_get (TargetComponent state) key
      in if Action newCom = ComponentDelete then
           (if delete_pending (Name (Component newCom)) role currentComponents then False
            else canSkip_loop changed rest target currentComponents state)
         else
           (case find_current (Name (Component newCom)) role currentComponents of
              Some c \<Rightarrow>
                if changed c (Component newCom) then False
                else canSkip_loop changed rest target currentComponents state
            | None \<Rightarrow> False))"

definition canSkipStep ::
  "(ComponentSpec \<Rightarrow> ComponentSpec \<Rightarrow> bool) \<Rightarrow> DeploymentStep \<Rightarrow> string
     \<Rightarrow> ComponentSpec list \<Rightarrow> DeploymentState \<Rightarrow> bool" where
  "canSkipStep changed step target currentComponents state =
     canSkip_loop changed (StepComponents step) target currentComponents state"

text \<open>
  What the code decides for one entry of a step: for an update, the first current component
  of that name is the one compared.
\<close>

definition entry_skippable ::
  "(ComponentSpec \<Rightarrow> ComponentSpec \<Rightarrow> bool) \<Rightarrow> string \<Rightarrow> ComponentSpec list
     \<Rightarrow> DeploymentState \<Rightarrow> ComponentStep \<Rightarrow> bool" where
  "entry_skippable changed target currentComponents state newCom =
     (let name = Name (Component newCom);
          role = map_get (TargetComponent state) (target_key name target)
      in (Action newCom = ComponentDelete \<longrightarrow>
            \<not> (\<exists>c \<in> set currentComponents. Name c = name \<and> role \<noteq> []))
       \<and> (Action newCom = ComponentUpdate \<longrightarrow>
            (\<exists>c. find (\<lambda>x. Name x = name) currentComponents = Some c
               \<and> role \<noteq> [] \<and> \<not> HasPrefix role ''-''
               \<and> \<not> changed c (Component newCom))))"

text \<open>
  The condition in the words of the specification: for an update, some current component of
  that name is bound without tombstone and reported unchanged.
\<close>

definition entry_skippable_stated ::
  "(ComponentSpec \<Rightarrow> ComponentSpec \<Rightarrow> bool) \<Rightarrow> string \<Rightarrow> ComponentSpec list
     \<Rightarrow> DeploymentState \<Rightarrow> ComponentStep \<Rightarrow> bool" where
  "entry_skippable_stated changed target currentComponents state newCom =
     (let name = Name (Component newCom);
          role = map_get (TargetComponent state) (target_key name target)
      in (Action newCom = ComponentDelete \<longrightarrow>
            \<not> (\<exists>c \<in> set currentComponents. Name c = name \<and> role \<noteq> []))
       \<and> (Action newCom = ComponentUpdate \<longrightarrow>
            (\<exists>c \<in> set currentComponents. Name c = name
               \<and> role \<noteq> [] \<and> \<not> HasPrefix role ''-''
               \<and> \<not> changed c (Component newCom))))"

text \<open>A validation rule for the examples: a component has changed when its type differs.\<close>

definition type_differs :: "ComponentSpec \<Rightarrow> ComponentSpec \<Rightarrow> bool" where
  "type_differs c d = (Type c \<noteq> Type d)"

section \<open>sortByDepedencies\<close>

text \<open>
  The inner loop over the components (lines 628 to 642), from index \<open>i\<close> on: a component
  that lists \<open>name\<close> among its dependencies has its in-degree decremented, and its index
  is appended to the queue when the in-degree becomes zero. The result is the in-degrees
  after the loop and the indices appended, in order.
\<close>

primrec relax :: "string \<Rightarrow> nat \<Rightarrow> ComponentSpec list \<Rightarrow> int list \<Rightarrow> int list \<times> nat list" where
  "relax name i [] inDegrees = (inDegrees, [])"
| "relax name i (c # cs) inDegrees =
     (case inDegrees of
        [] \<Rightarrow> ([], [])
      | d # ds \<Rightarrow>
          let r = relax name (Suc i) cs ds in
          if name \<in> set (Dependencies c)
          then ((d - 1) # fst r, if d - 1 = 0 then i # snd r else snd r)
          else (d # fst r, snd r))"

lemma relax_positive:
  "length (filter (\<lambda>d. 0 < d) (fst (relax name i cs ds))) + length (snd (relax name i cs ds))
     \<le> length (filter (\<lambda>d. 0 < d) ds)"
proof (induction cs arbitrary: i ds)
  case Nil
  then show ?case by simp
next
  case (Cons c cs)
  show ?case
  proof (cases ds)
    case Nil
    then show ?thesis by simp
  next
    case (Cons d ds')
    with Cons.IH [of "Suc i" ds'] show ?thesis by (auto simp: Let_def)
  qed
qed

text \<open>The loop \<^verbatim>\<open>for len(queue) > 0\<close> (lines 625 to 643).\<close>

function kahn_loop ::
  "ComponentSpec list \<Rightarrow> int list \<Rightarrow> nat list \<Rightarrow> ComponentSpec list \<Rightarrow> ComponentSpec list" where
  "kahn_loop components inDegrees [] ret = ret"
| "kahn_loop components inDegrees (q # queue) ret =
     (let r = relax (Name (components ! q)) 0 components inDegrees
      in kahn_loop components (fst r) (queue @ snd r) (ret @ [components ! q]))"
  by pat_completeness auto
termination
proof (relation "measure (\<lambda>(cs, ds, queue, ret). length (filter (\<lambda>d. 0 < d) ds) + length queue)")
  show "wf (measure (\<lambda>(cs, ds, queue, ret). length (filter (\<lambda>d. 0 < d) ds) + length queue))"
    by simp
next
  fix components :: "ComponentSpec list" and inDegrees q queue ret r
  assume "r = relax (Name (components ! q)) 0 components inDegrees"
  then show "((components, fst r, queue @ snd r, ret @ [components ! q]),
              (components, inDegrees, q # queue, ret))
           \<in> measure (\<lambda>(cs, ds, queue, ret). length (filter (\<lambda>d. 0 < d) ds) + length queue)"
    using relax_positive [of "Name (components ! q)" 0 components inDegrees] by simp
qed

definition sortByDepedencies :: "ComponentSpec list \<Rightarrow> error + ComponentSpec list" where
  "sortByDepedencies components =
     (let size = length components;
          inDegrees = map (\<lambda>c. int (length (Dependencies c))) components;
          queue = filter (\<lambda>i. inDegrees ! i = 0) [0..<size];
          ret = kahn_loop components inDegrees queue []
      in if length ret \<noteq> size
         then Inl (PlainError ''circular dependencies or unresolved dependencies detected in components'')
         else Inr ret)"

text \<open>
  The dependency graph: an edge from the name of each component to every name in its
  Dependencies. A list is resolved when every such name is the name of a component.
\<close>

definition dep_graph :: "ComponentSpec list \<Rightarrow> (string \<times> string) set" where
  "dep_graph components = (\<Union>c \<in> set components. {Name c} \<times> set (Dependencies c))"

definition resolved :: "ComponentSpec list \<Rightarrow> bool" where
  "resolved components =
     (\<forall>c \<in> set components. \<forall>d \<in> set (Dependencies c). d \<in> Name ` set components)"

text \<open>
  Invariants of the loop, over the indices already emitted (\<open>P\<close>) and the queue
  (\<open>Q\<close>): an index is emitted or queued exactly when its in-degree is not positive;
  with distinct names, the in-degree counts the dependencies not yet emitted, and every
  emitted component has its dependencies emitted before it.
\<close>

definition names_of :: "ComponentSpec list \<Rightarrow> nat list \<Rightarrow> string set" where
  "names_of cs P = (\<lambda>i. Name (cs ! i)) ` set P"

definition queue_inv :: "ComponentSpec list \<Rightarrow> int list \<Rightarrow> nat list \<Rightarrow> nat list \<Rightarrow> bool" where
  "queue_inv cs ds Q P \<longleftrightarrow>
     length ds = length cs \<and> distinct (P @ Q) \<and> set (P @ Q) \<subseteq> {..<length cs}
     \<and> (\<forall>i<length cs. i \<in> set (P @ Q) \<longleftrightarrow> ds ! i \<le> 0)"

definition degree_inv :: "ComponentSpec list \<Rightarrow> int list \<Rightarrow> nat list \<Rightarrow> bool" where
  "degree_inv cs ds P \<longleftrightarrow>
     (\<forall>i<length cs. ds ! i = int (card (set (Dependencies (cs ! i)) - names_of cs P)))
     \<and> (\<forall>k<length P. set (Dependencies (cs ! (P ! k))) \<subseteq> names_of cs (take k P))"

section \<open>The solution manager\<close>

text \<open>
  Modelled from the spec: DeploymentSpec, TargetState and the summary types of package
  model, with the fields the solution manager uses: the instance name and metadata
  (\<^verbatim>\<open>Instance.Spec.Name\<close>, \<^verbatim>\<open>Instance.Spec.Metadata\<close>), the solution metadata, the
  targets, the generation and the active target. Structs are copied by value.
\<close>

record TargetState =
  TargetSpecComponents :: "ComponentSpec list"

record DeploymentSpec =
  InstanceName :: string
  InstanceMetadata :: "string \<rightharpoonup> string"
  SolutionMetadata :: "string \<rightharpoonup> string"
  Targets :: "string \<rightharpoonup> TargetState"
  Generation :: string
  ActiveTarget :: string

record ComponentResultSpec =
  ResultStatus :: State
  ResultMessage :: string

record TargetResultSpec =
  Status :: string
  Message :: string
  ComponentResults :: "string \<rightharpoonup> ComponentResultSpec"

record SummarySpec =
  TargetCount :: nat
  SuccessCount :: nat
  AllAssignedDeployed :: bool
  Skipped :: bool
  IsRemoval :: bool
  SummaryMessage :: string
  TargetResults :: "string \<rightharpoonup> TargetResultSpec"

record SummaryResult =
  Summary :: SummarySpec
  SummaryGeneration :: string
  Time :: int

record SolutionManagerDeploymentState =
  Spec :: DeploymentSpec
  DState :: DeploymentState

subsection \<open>Calls that leave the process\<close>

text \<open>
  The state provider and the target providers are interfaces. Every call that changes the
  world (an Apply on a target, an Upsert on the state provider) is appended to a history,
  and what the world answers is a function of the history so far and of the arguments.
\<close>

datatype body = StateBody SolutionManagerDeploymentState | SummaryBody SummaryResult

datatype call =
    ApplyCall DeploymentSpec DeploymentStep
  | UpsertCall string string body

type_synonym history = "call list"

record ITargetProvider =
  ProviderGet :: "history \<Rightarrow> DeploymentSpec \<Rightarrow> ComponentStep list \<Rightarrow> error + ComponentSpec list"
  ProviderApply :: "history \<Rightarrow> DeploymentSpec \<Rightarrow> DeploymentStep \<Rightarrow> bool
                      \<Rightarrow> (string \<rightharpoonup> ComponentResultSpec) \<times> error option"
  IsComponentChanged :: "ComponentSpec \<Rightarrow> ComponentSpec \<Rightarrow> bool"

record SolutionManager =
  TargetProviders :: "string \<rightharpoonup> ITargetProvider"
  IsTarget :: bool
  TargetNames :: "string list"

text \<open>
  The functions of other packages that Reconcile calls and whose source is not at hand:
  the evaluation of the deployment (present when the vendor context has an evaluation
  context), the state provider's Get with the JSON decoding of the stored body into a
  SolutionManagerDeploymentState (\<open>None\<close> when \<^verbatim>\<open>json.Unmarshal\<close> fails), the deployment
  state operations, the planner, the provider factory, MergeCollection, the clock, and
  the method UpdateTargetResult of the summary, which records the result of a target.
\<close>

record environment =
  HasEvaluationContext :: bool
  EvaluateDeployment :: "DeploymentSpec \<Rightarrow> string \<Rightarrow> DeploymentSpec \<times> error option"
  StateGet :: "history \<Rightarrow> string \<Rightarrow> string \<Rightarrow> error + StateEntry"
  DecodeState :: "gval \<Rightarrow> SolutionManagerDeploymentState option"
  NewDeploymentState :: "DeploymentSpec \<Rightarrow> error + DeploymentState"
  MergeDeploymentStates :: "DeploymentState \<Rightarrow> DeploymentState \<Rightarrow> DeploymentState"
  MarkRemoveAll :: "DeploymentState \<Rightarrow> DeploymentState"
  ClearAllRemoved :: "DeploymentState \<Rightarrow> DeploymentState"
  PlanForDeployment :: "DeploymentSpec \<Rightarrow> DeploymentState \<Rightarrow> error + DeploymentStep list"
  CreateProviderForTargetRole :: "string \<Rightarrow> TargetState \<Rightarrow> error + ITargetProvider"
  MergeCollection :: "(string \<rightharpoonup> string) \<Rightarrow> (string \<rightharpoonup> string) \<Rightarrow> (string \<rightharpoonup> string)"
  Now :: "history \<Rightarrow> int"
  UpdateTargetResult :: "SummarySpec \<Rightarrow> string \<Rightarrow> TargetResultSpec \<Rightarrow> SummarySpec"

subsection \<open>getPreviousState, saveSummary, findAgent\<close>

definition getPreviousState ::
  "environment \<Rightarrow> history \<Rightarrow> string \<Rightarrow> string \<Rightarrow> SolutionManagerDeploymentState option" where
  "getPreviousState env h instance namespace =
     (case StateGet env h instance namespace of
        Inr state \<Rightarrow>
          (case DecodeState env (Body state) of
             Some managerState \<Rightarrow> Some managerState
           | None \<Rightarrow> None)
      | Inl err \<Rightarrow> None)"

definition saveSummary ::
  "environment \<Rightarrow> history \<Rightarrow> DeploymentSpec \<Rightarrow> SummarySpec \<Rightarrow> string \<Rightarrow> history" where
  "saveSummary env h deployment summary namespace =
     h @ [UpsertCall (''summary-'' @ InstanceName deployment) namespace
            (SummaryBody \<lparr>Summary = summary, SummaryGeneration = Generation deployment,
                           Time = Now env h\<rparr>)]"

definition SYMPHONY_AGENT :: string where
  "SYMPHONY_AGENT = ''/symphony-agent:''"

definition ENV_NAME :: string where
  "ENV_NAME = ''SYMPHONY_AGENT_ADDRESS''"

text \<open>
  Modelled from the spec: the property key \<^verbatim>\<open>model.ContainerImage\<close>, which the spec
  gives as \<open>container.image\<close>.
\<close>

definition ContainerImage :: string where
  "ContainerImage = ''container.image''"

fun Contains :: "string \<Rightarrow> string \<Rightarrow> bool" where
  "Contains [] sub = (sub = [])"
| "Contains (c # s) sub = (HasPrefix (c # s) sub \<or> Contains s sub)"

text \<open>\<^verbatim>\<open>fmt.Sprintf("%v", v)\<close> on the scalar values; lists and maps are left open.\<close>

fun Sprintf_v :: "gval \<Rightarrow> string" where
  "Sprintf_v (GStr s) = s"
| "Sprintf_v GNil = ''<nil>''"
| "Sprintf_v (GBool b) = (if b then ''true'' else ''false'')"
| "Sprintf_v (GNum n) = FormatInt n"

primrec findAgent_loop :: "ComponentSpec list \<Rightarrow> string" where
  "findAgent_loop [] = []"
| "findAgent_loop (c # cs) =
     (case fmlookup (Properties c) ContainerImage of
        Some v \<Rightarrow> if Contains (Sprintf_v v) SYMPHONY_AGENT then Name c else findAgent_loop cs
      | None \<Rightarrow> findAgent_loop cs)"

definition findAgent :: "TargetState \<Rightarrow> string" where
  "findAgent target = findAgent_loop (TargetSpecComponents target)"

text \<open>Reading a target that the map does not hold gives the zero TargetState.\<close>

definition target_of :: "(string \<rightharpoonup> TargetState) \<Rightarrow> string \<Rightarrow> TargetState" where
  "target_of targets t =
     (case targets t of Some ts \<Rightarrow> ts | None \<Rightarrow> \<lparr>TargetSpecComponents = []\<rparr>)"

definition getTargetStateForStep ::
  "DeploymentStep \<Rightarrow> DeploymentSpec \<Rightarrow> SolutionManagerDeploymentState option \<Rightarrow> TargetState" where
  "getTargetStateForStep step deployment previousDeploymentState =
     (case Targets deployment (Target step) of
        Some targetSpec \<Rightarrow> targetSpec
      | None \<Rightarrow>
          (case previousDeploymentState of
             Some p \<Rightarrow> target_of (Targets (Spec p)) (Target step)
           | None \<Rightarrow> \<lparr>TargetSpecComponents = []\<rparr>))"

text \<open>The two filters at the head of the loop over the steps, in Reconcile and in Get.\<close>

definition step_filtered :: "SolutionManager \<Rightarrow> string \<Rightarrow> DeploymentStep \<Rightarrow> bool" where
  "step_filtered s targetName step =
     ((IsTarget s \<and> Target step \<notin> set (TargetNames s))
      \<or> (targetName \<noteq> [] \<and> targetName \<noteq> Target step))"

text \<open>
  The provider of a step: the registered one, or one created for the role of the step
  from the given target state.
\<close>

definition resolve_provider ::
  "environment \<Rightarrow> SolutionManager \<Rightarrow> DeploymentStep \<Rightarrow> TargetState \<Rightarrow> error + ITargetProvider" where
  "resolve_provider env s step targetSpec =
     (case TargetProviders s (Target step) of
        Some override \<Rightarrow> Inr override
      | None \<Rightarrow> CreateProviderForTargetRole env (Role step) targetSpec)"

subsection \<open>SolutionManager.Get\<close>

text \<open>
  The loop over the components a provider reports (lines 542 to 559): the role of each is
  written under its key, and a component is appended unless one of that name is there.
\<close>

primrec Get_components ::
  "string \<Rightarrow> ComponentSpec list \<Rightarrow> (string \<rightharpoonup> string) \<times> ComponentSpec list
     \<Rightarrow> (string \<rightharpoonup> string) \<times> ComponentSpec list" where
  "Get_components target [] acc = acc"
| "Get_components target (c # cs) acc =
     (let key = target_key (Name c) target;
          role = (if Type c = [] then ''container'' else Type c);
          tc = (fst acc)(key \<mapsto> role);
          retComponents =
            (if \<exists>rc \<in> set (snd acc). Name rc = Name c then snd acc else snd acc @ [c])
      in Get_components target cs (tc, retComponents))"

primrec Get_steps ::
  "environment \<Rightarrow> SolutionManager \<Rightarrow> history \<Rightarrow> string \<Rightarrow> DeploymentStep list
     \<Rightarrow> DeploymentSpec \<Rightarrow> DeploymentState \<Rightarrow> ComponentSpec list
     \<Rightarrow> DeploymentState \<times> ComponentSpec list \<times> error option" where
  "Get_steps env s h targetName [] deployment ret retComponents = (ret, retComponents, None)"
| "Get_steps env s h targetName (step # steps) deployment ret retComponents =
     (if step_filtered s targetName step
      then Get_steps env s h targetName steps deployment ret retComponents
      else
        let deployment1 = deployment\<lparr>ActiveTarget := Target step\<rparr> in
        case resolve_provider env s step (target_of (Targets deployment1) (Target step)) of
          Inl err \<Rightarrow> (ret, [], Some err)
        | Inr provider \<Rightarrow>
            (case ProviderGet provider h deployment1 (StepComponents step) of
               Inl err \<Rightarrow> (ret, [], Some err)
             | Inr components \<Rightarrow>
                 let acc = Get_components (Target step) components
                             (TargetComponent ret, retComponents)
                 in Get_steps env s h targetName steps deployment1
                      (ret\<lparr>TargetComponent := fst acc\<rparr>) (snd acc)))"

definition Get ::
  "environment \<Rightarrow> SolutionManager \<Rightarrow> history \<Rightarrow> DeploymentSpec \<Rightarrow> string
     \<Rightarrow> DeploymentState \<times> ComponentSpec list \<times> error option" where
  "Get env s h deployment targetName =
     (let ret = \<lparr>StateComponents = [], TargetComponent = Map.empty\<rparr> in
      case NewDeploymentState env deployment of
        Inl err \<Rightarrow> (ret, [], Some err)
      | Inr state \<Rightarrow>
          (case PlanForDeployment env deployment state of
             Inl err \<Rightarrow> (ret, [], Some err)
           | Inr plan \<Rightarrow>
               Get_steps env s h targetName plan deployment
                 (state\<lparr>TargetComponent := Map.empty\<rparr>) []))"

subsection \<open>SolutionManager.Reconcile\<close>

text \<open>
  The process-wide lock and the heartbeat goroutine are left out: they do not touch the
  values below. The variables of the step loop: \<^verbatim>\<open>col\<close> and
  \<^verbatim>\<open>dep.Instance.Spec.Metadata\<close> are one map, held in \<open>ls_dep\<close>.
\<close>

record loop_state =
  ls_summary :: SummarySpec
  ls_dep :: DeploymentSpec
  someStepsRan :: bool
  targetResult :: "string \<rightharpoonup> nat"
  plannedCount :: nat
  planSuccessCount :: nat
  ls_history :: history

datatype loop_exit =
    Finished loop_state
  | ProviderFailed error loop_state
  | StepFailed DeploymentStep error loop_state

definition retryCount :: nat where
  "retryCount = 1"

definition sum_results :: "(string \<rightharpoonup> nat) \<Rightarrow> nat" where
  "sum_results m = (\<Sum>k \<in> dom m. the (m k))"

text \<open>
  The retry loop (lines 355 to 368) with \<open>n\<close> attempts left; \<open>stepError\<close> is the error
  of the attempt before. The sleep between attempts only takes time.
\<close>

primrec apply_retry ::
  "environment \<Rightarrow> nat \<Rightarrow> error option \<Rightarrow> ITargetProvider \<Rightarrow> DeploymentStep \<Rightarrow> loop_state
     \<Rightarrow> error option \<times> loop_state" where
  "apply_retry env 0 stepError provider step ls = (stepError, ls)"
| "apply_retry env (Suc n) stepError provider step ls =
     (let r = ProviderApply provider (ls_history ls) (ls_dep ls) step False;
          h1 = ls_history ls @ [ApplyCall (ls_dep ls) step]
      in case snd r of
           None \<Rightarrow>
             (None,
              ls\<lparr>targetResult := (targetResult ls)(Target step \<mapsto> 1),
                 ls_summary := UpdateTargetResult env
                   ((ls_summary ls)\<lparr>AllAssignedDeployed := (plannedCount ls = planSuccessCount ls)\<rparr>)
                   (Target step)
                   \<lparr>Status = ''OK'', Message = [], ComponentResults = fst r\<rparr>,
                 ls_history := h1\<rparr>)
         | Some e \<Rightarrow>
             apply_retry env n (Some e) provider step
               (ls\<lparr>targetResult := (targetResult ls)(Target step \<mapsto> 0),
                   ls_summary := UpdateTargetResult env
                     ((ls_summary ls)\<lparr>AllAssignedDeployed := False\<rparr>)
                     (Target step)
                     \<lparr>Status = ''Error'', Message = ErrorText e, ComponentResults = fst r\<rparr>,
                   ls_history := h1\<rparr>))"

text \<open>The body of the step loop (lines 284 to 382).\<close>

definition run_step ::
  "environment \<Rightarrow> SolutionManager \<Rightarrow> DeploymentSpec \<Rightarrow> string \<Rightarrow> string
     \<Rightarrow> SolutionManagerDeploymentState option \<Rightarrow> DeploymentState
     \<Rightarrow> DeploymentStep \<Rightarrow> loop_state \<Rightarrow> loop_exit" where
  "run_step env s deployment namespace targetName previousDesiredState currentState step ls =
     (if step_filtered s targetName step then Finished ls
      else
        let agent = findAgent (target_of (Targets deployment) (Target step));
            col = InstanceMetadata (ls_dep ls);
            col1 = (if agent \<noteq> [] then col(ENV_NAME \<mapsto> agent) else col(ENV_NAME := None));
            ls1 = ls\<lparr>plannedCount := plannedCount ls + 1,
                     ls_dep := (ls_dep ls)\<lparr>ActiveTarget := Target step, InstanceMetadata := col1\<rparr>\<rparr>
        in case resolve_provider env s step
                  (getTargetStateForStep step deployment previousDesiredState) of
             Inl err \<Rightarrow>
               (let summary = (ls_summary ls1)\<lparr>SummaryMessage := ''failed to create provider:'' @ ErrorText err\<rparr>
                in ProviderFailed err
                     (ls1\<lparr>ls_summary := summary,
                          ls_history := saveSummary env (ls_history ls1) deployment summary namespace\<rparr>))
           | Inr provider \<Rightarrow>
               if (case previousDesiredState of
                     Some p \<Rightarrow>
                       canSkipStep (IsComponentChanged provider) step (Target step)
                         (StateComponents (DState p))
                         (MergeDeploymentStates env (DState p) currentState)
                   | None \<Rightarrow> False)
               then Finished (ls1\<lparr>targetResult := (targetResult ls1)(Target step \<mapsto> 1),
                                   planSuccessCount := planSuccessCount ls1 + 1\<rparr>)
               else
                 (let r = apply_retry env retryCount None provider step (ls1\<lparr>someStepsRan := True\<rparr>);
                      ls2 = snd r
                  in case fst r of
                       Some stepError \<Rightarrow>
                         (let summary = (ls_summary ls2)
                                \<lparr>SuccessCount := sum_results (targetResult ls2),
                                 AllAssignedDeployed := (plannedCount ls2 = planSuccessCount ls2)\<rparr>
                          in StepFailed step stepError
                               (ls2\<lparr>ls_summary := summary,
                                    ls_history := saveSummary env (ls_history ls2) deployment summary namespace\<rparr>))
                     | None \<Rightarrow> Finished (ls2\<lparr>planSuccessCount := planSuccessCount ls2 + 1\<rparr>)))"

primrec run_steps ::
  "environment \<Rightarrow> SolutionManager \<Rightarrow> DeploymentSpec \<Rightarrow> string \<Rightarrow> string
     \<Rightarrow> SolutionManagerDeploymentState option \<Rightarrow> DeploymentState
     \<Rightarrow> DeploymentStep list \<Rightarrow> loop_state \<Rightarrow> loop_exit" where
  "run_steps env s deployment namespace targetName previousDesiredState currentState [] ls =
     Finished ls"
| "run_steps env s deployment namespace targetName previousDesiredState currentState (step # steps) ls =
     (case run_step env s deployment namespace targetName previousDesiredState currentState step ls of
        Finished ls1 \<Rightarrow>
          run_steps env s deployment namespace targetName previousDesiredState currentState steps ls1
      | ProviderFailed err ls1 \<Rightarrow> ProviderFailed err ls1
      | StepFailed st err ls1 \<Rightarrow> StepFailed st err ls1)"

text \<open>
  Lines 212 to 272: everything before the step loop. \<open>Inl\<close> is an early return of
  Reconcile (with the summary saved), \<open>Inr\<close> the values the loop starts from.
\<close>

record plan_context =
  ctx_summary :: SummarySpec
  ctx_deployment :: DeploymentSpec
  ctx_previous :: "SolutionManagerDeploymentState option"
  ctx_currentState :: DeploymentState
  ctx_desiredState :: DeploymentState
  ctx_mergedState :: DeploymentState
  ctx_plan :: "DeploymentStep list"

definition early_return ::
  "environment \<Rightarrow> history \<Rightarrow> DeploymentSpec \<Rightarrow> SummarySpec \<Rightarrow> string \<Rightarrow> string \<Rightarrow> error
     \<Rightarrow> (SummarySpec \<times> error option) \<times> history" where
  "early_return env h deployment summary namespace msg err =
     (let summary1 = summary\<lparr>SummaryMessage := msg @ ErrorText err\<rparr>
      in ((summary1, Some err), saveSummary env h deployment summary1 namespace))"

definition reconcile_plan ::
  "environment \<Rightarrow> SolutionManager \<Rightarrow> history \<Rightarrow> DeploymentSpec \<Rightarrow> bool \<Rightarrow> string \<Rightarrow> string
     \<Rightarrow> ((SummarySpec \<times> error option) \<times> history) + plan_context" where
  "reconcile_plan env s h deployment0 remove namespace targetName =
     (let summary = \<lparr>TargetCount = card (dom (Targets deployment0)), SuccessCount = 0,
                      AllAssignedDeployed = False, Skipped = False, IsRemoval = False,
                      SummaryMessage = [], TargetResults = Map.empty\<rparr>;
          ev = (if HasEvaluationContext env then EvaluateDeployment env deployment0 namespace
                else (deployment0, None));
          deployment = fst ev
      in if snd ev \<noteq> None \<and> \<not> remove then
           Inl (early_return env h deployment summary namespace
                  ''failed to evaluate deployment spec: '' (the (snd ev)))
         else
           let previousDesiredState = getPreviousState env h (InstanceName deployment) namespace in
           case NewDeploymentState env deployment of
             Inl err \<Rightarrow>
               Inl (early_return env h deployment summary namespace
                      ''failed to create target manager state from deployment spec: '' err)
           | Inr currentDesiredState \<Rightarrow>
               (case Get env s h deployment targetName of
                  (currentState, comps, Some err) \<Rightarrow>
                    Inl (early_return env h deployment summary namespace
                           ''failed to get current state: '' err)
                | (currentState, comps, None) \<Rightarrow>
                    let desiredState0 =
                          (case previousDesiredState of
                             Some p \<Rightarrow> MergeDeploymentStates env (DState p) currentDesiredState
                           | None \<Rightarrow> currentDesiredState);
                        desiredState = (if remove then MarkRemoveAll env desiredState0
                                        else desiredState0);
                        mergedState = MergeDeploymentStates env currentState desiredState
                    in case PlanForDeployment env deployment mergedState of
                         Inl err \<Rightarrow>
                           Inl (early_return env h deployment summary namespace
                                  ''failed to plan for deployment: '' err)
                       | Inr plan \<Rightarrow>
                           Inr \<lparr>ctx_summary = summary, ctx_deployment = deployment,
                                ctx_previous = previousDesiredState,
                                ctx_currentState = currentState,
                                ctx_desiredState = desiredState,
                                ctx_mergedState = mergedState, ctx_plan = plan\<rparr>))"

definition initial_loop_state :: "environment \<Rightarrow> history \<Rightarrow> plan_context \<Rightarrow> loop_state" where
  "initial_loop_state env h ctx =
     (let deployment = ctx_deployment ctx;
          col = MergeCollection env (SolutionMetadata deployment) (InstanceMetadata deployment)
      in \<lparr>ls_summary = ctx_summary ctx,
          ls_dep = deployment\<lparr>InstanceMetadata := col\<rparr>,
          someStepsRan = False, targetResult = Map.empty,
          plannedCount = 0, planSuccessCount = 0, ls_history = h\<rparr>)"

text \<open>Lines 385 to 425: after the loop has run through.\<close>

definition reconcile_finish ::
  "environment \<Rightarrow> plan_context \<Rightarrow> bool \<Rightarrow> string \<Rightarrow> loop_state
     \<Rightarrow> (SummarySpec \<times> error option) \<times> history" where
  "reconcile_finish env ctx remove namespace ls =
     (let deployment = ctx_deployment ctx;
          mergedState = ClearAllRemoved env (ctx_mergedState ctx);
          h1 = ls_history ls @ [UpsertCall (InstanceName deployment) namespace
                 (StateBody \<lparr>Spec = deployment, DState = mergedState\<rparr>)];
          summary1 = (ls_summary ls)\<lparr>Skipped := \<not> someStepsRan ls\<rparr>;
          summary2 = (if Skipped summary1 then summary1\<lparr>SuccessCount := TargetCount summary1\<rparr>
                      else summary1);
          summary3 = summary2\<lparr>IsRemoval := remove\<rparr>;
          summary4 = summary3\<lparr>SuccessCount := sum_results (targetResult ls)\<rparr>;
          summary5 = summary4\<lparr>AllAssignedDeployed := (plannedCount ls = planSuccessCount ls)\<rparr>
      in ((summary5, None), saveSummary env h1 deployment summary5 namespace))"

definition Reconcile ::
  "environment \<Rightarrow> SolutionManager \<Rightarrow> history \<Rightarrow> DeploymentSpec \<Rightarrow> bool \<Rightarrow> string \<Rightarrow> string
     \<Rightarrow> (SummarySpec \<times> error option) \<times> history" where
  "Reconcile env s h deployment remove namespace targetName =
     (case reconcile_plan env s h deployment remove namespace targetName of
        Inl ret \<Rightarrow> ret
      | Inr ctx \<Rightarrow>
          (case run_steps env s (ctx_deployment ctx) namespace targetName (ctx_previous ctx)
                  (ctx_currentState ctx) (ctx_plan ctx) (initial_loop_state env h ctx) of
             Finished ls \<Rightarrow> reconcile_finish env ctx remove namespace ls
           | ProviderFailed err ls \<Rightarrow> ((ls_summary ls, Some err), ls_history ls)
           | StepFailed step err ls \<Rightarrow> ((ls_summary ls, Some err), ls_history ls)))"




subsection \<open>A concrete deployment\<close>

text \<open>
  One component \<open>A\<close> on the targets \<open>T1\<close> and \<open>T2\<close>, a provider that reports \<open>A\<close>
  as deployed and unchanged, and a state provider that holds the state of an earlier
  reconcile of the same deployment. The deployment state operations follow the spec:
  a merge is the union with the second state winning, MarkRemoveAll prefixes every role
  with \<open>-\<close>, ClearAllRemoved drops the roles with that prefix, and UpdateTargetResult
  stores the result under the target.
\<close>

definition sample_component :: ComponentSpec where
  "sample_component =
     \<lparr>Name = ''A'', Type = ''container'', Properties = fmempty, Dependencies = []\<rparr>"

definition sample_step :: "string \<Rightarrow> DeploymentStep" where
  "sample_step t =
     \<lparr>Target = t,
      StepComponents = [\<lparr>Action = ComponentUpdate, Component = sample_component\<rparr>],
      Role = ''container''\<rparr>"

definition sample_deployment :: DeploymentSpec where
  "sample_deployment =
     \<lparr>InstanceName = ''inst'', InstanceMetadata = Map.empty, SolutionMetadata = Map.empty,
      Targets = [''T1'' \<mapsto> \<lparr>TargetSpecComponents = []\<rparr>,
                 ''T2'' \<mapsto> \<lparr>TargetSpecComponents = []\<rparr>],
      Generation = ''1'', ActiveTarget = []\<rparr>"

definition sample_state :: DeploymentState where
  "sample_state =
     \<lparr>StateComponents = [sample_component],
      TargetComponent = [''A::T1'' \<mapsto> ''container'', ''A::T2'' \<mapsto> ''container'']\<rparr>"

definition sample_provider :: "error option \<Rightarrow> ITargetProvider" where
  "sample_provider applyError =
     \<lparr>ProviderGet = (\<lambda>h d cs. Inr [sample_component]),
      ProviderApply = (\<lambda>h d st dry. (Map.empty, applyError)),
      IsComponentChanged = (\<lambda>c d. False)\<rparr>"

definition sample_manager :: "error option \<Rightarrow> SolutionManager" where
  "sample_manager applyError =
     \<lparr>TargetProviders = [''T1'' \<mapsto> sample_provider applyError,
                         ''T2'' \<mapsto> sample_provider applyError],
      IsTarget = False, TargetNames = []\<rparr>"

definition sample_environment :: "(error + StateEntry) \<Rightarrow> environment" where
  "sample_environment stored =
     \<lparr>HasEvaluationContext = False,
      EvaluateDeployment = (\<lambda>d ns. (d, None)),
      StateGet = (\<lambda>h i ns. stored),
      DecodeState = (\<lambda>b. case b of
          GStr s \<Rightarrow> Some \<lparr>Spec = sample_deployment, DState = sample_state\<rparr>
        | _ \<Rightarrow> None),
      NewDeploymentState = (\<lambda>d. Inr sample_state),
      MergeDeploymentStates = (\<lambda>a b.
          \<lparr>StateComponents = StateComponents b,
           TargetComponent = TargetComponent a ++ TargetComponent b\<rparr>),
      MarkRemoveAll = (\<lambda>st. st\<lparr>TargetComponent :=
          (\<lambda>k. map_option (\<lambda>r. ''-'' @ r) (TargetComponent st k))\<rparr>),
      ClearAllRemoved = (\<lambda>st. st\<lparr>TargetComponent :=
          (\<lambda>k. case TargetComponent st k of
                  Some r \<Rightarrow> if HasPrefix r ''-'' then None else Some r
                | None \<Rightarrow> None)\<rparr>),
      PlanForDeployment = (\<lambda>d st. Inr [sample_step ''T1'', sample_step ''T2'']),
      CreateProviderForTargetRole = (\<lambda>role ts. Inr (sample_provider None)),
      MergeCollection = (\<lambda>a b. a ++ b),
      Now = (\<lambda>h. 0),
      UpdateTargetResult = (\<lambda>summary target spec.
          summary\<lparr>TargetResults := (TargetResults summary)(target \<mapsto> spec)\<rparr>)\<rparr>"

definition sample_entry :: StateEntry where
  "sample_entry = \<lparr>ID = ''inst'', Body = GStr ''state of inst'', ETag = ''1''\<rparr>"


section \<open>Properties of the strconv model\<close>

lemmas strconv_defs = ParseInt_def ParseUint_def isDigit_def digitVal_def maxUint64_def
  cutoff63_def FormatInt_def digits_def

lemma digit_nth_of_char: "d < 10 \<Longrightarrow> (of_char (digits ! d) :: nat) = 48 + d"
proof -
  assume "d < 10"
  then have "d \<in> {0,1,2,3,4,5,6,7,8,9}" by auto
  then show ?thesis by (auto simp: digits_def)
qed

lemma isDigit_digits: "d < 10 \<Longrightarrow> isDigit (digits ! d)"
  by (simp add: isDigit_def digit_nth_of_char)

lemma digitVal_digits: "d < 10 \<Longrightarrow> digitVal (digits ! d) = d"
  by (simp add: digitVal_def digit_nth_of_char)

declare formatBits.simps [simp del]

lemma formatBits_digits: "\<forall>c \<in> set (formatBits n). isDigit c"
proof (induction n rule: formatBits.induct)
  case (1 n)
  show ?case
  proof (cases "n < 10")
    case True
    then show ?thesis by (subst formatBits.simps) (simp add: isDigit_digits)
  next
    case False
    with 1 show ?thesis by (subst formatBits.simps) (simp add: isDigit_digits)
  qed
qed

lemma formatBits_nonempty: "formatBits n \<noteq> []"
  by (subst formatBits.simps) simp


lemma digitsValue_ge: "a \<le> digitsValue a s"
  unfolding digitsValue_def
proof (induction s arbitrary: a)
  case Nil then show ?case by simp
next
  case (Cons c s)
  have "a \<le> a * 10 + digitVal c" by simp
  also have "\<dots> \<le> fold (\<lambda>c n. n * 10 + digitVal c) s (a * 10 + digitVal c)" by (rule Cons.IH)
  finally show ?case by simp
qed

lemma ParseUint_loop_value:
  "\<forall>c \<in> set s. isDigit c \<Longrightarrow> digitsValue a s \<le> maxUint64 \<Longrightarrow>
   ParseUint_loop a s = Inr (digitsValue a s)"
proof (induction s arbitrary: a)
  case Nil then show ?case by (simp add: digitsValue_def)
next
  case (Cons c s)
  have step: "digitsValue a (c # s) = digitsValue (a * 10 + digitVal c) s"
    by (simp add: digitsValue_def)
  have "a * 10 + digitVal c \<le> digitsValue (a * 10 + digitVal c) s" by (rule digitsValue_ge)
  with Cons.prems step have le: "a * 10 + digitVal c \<le> maxUint64" by simp
  from Cons.prems step have "ParseUint_loop (a * 10 + digitVal c) s = Inr (digitsValue (a * 10 + digitVal c) s)"
    by (intro Cons.IH) auto
  with Cons.prems le step show ?case by simp
qed

lemma digitsValue_formatBits: "digitsValue 0 (formatBits n) = n"
proof (induction n rule: formatBits.induct)
  case (1 n)
  show ?case
  proof (cases "n < 10")
    case True
    then show ?thesis by (subst formatBits.simps) (simp add: digitsValue_def digitVal_digits)
  next
    case False
    with 1 have "digitsValue 0 (formatBits (n div 10)) = n div 10" by simp
    with False show ?thesis
      by (subst formatBits.simps) (simp add: digitsValue_def digitVal_digits)
  qed
qed

lemma ParseUint_formatBits: "n \<le> maxUint64 \<Longrightarrow> ParseUint (formatBits n) = Inr n"
  using ParseUint_loop_value [of "formatBits n" 0]
  by (simp add: ParseUint_def formatBits_nonempty formatBits_digits digitsValue_formatBits)

lemma hd_formatBits_digit: "isDigit (hd (formatBits n))"
  using formatBits_digits [of n] formatBits_nonempty [of n] by (cases "formatBits n") auto

lemma hd_formatBits_not_sign: "hd (formatBits n) \<noteq> CHR ''-''" "hd (formatBits n) \<noteq> CHR ''+''"
  using hd_formatBits_digit [of n] by (auto simp: isDigit_def)

lemma ParseInt_FormatInt: "is_int64 i \<Longrightarrow> ParseInt (FormatInt i) = Inr i"
proof (cases "i < 0")
  case True
  assume "is_int64 i"
  with True have b: "nat (- i) \<le> cutoff63" "nat (- i) \<le> maxUint64"
    by (auto simp: is_int64_def cutoff63_def maxUint64_def)
  with True show ?thesis
    by (simp add: ParseInt_def FormatInt_def ParseUint_formatBits)
next
  case False
  assume "is_int64 i"
  with False have b: "nat i < cutoff63" "nat i \<le> maxUint64"
    by (auto simp: is_int64_def cutoff63_def maxUint64_def)
  with False show ?thesis
    by (simp add: ParseInt_def FormatInt_def ParseUint_formatBits formatBits_nonempty hd_formatBits_not_sign)
qed

lemma ParseInt_range: "ParseInt s = Inr v \<Longrightarrow> is_int64 v"
  by (auto simp: ParseInt_def Let_def is_int64_def cutoff63_def split: if_splits sum.splits NumError.splits)

lemma int64_add_is_int64: "is_int64 (int64_add a b)"
  by (simp add: is_int64_def int64_add_def)

lemma int64_add_no_overflow: "is_int64 a \<Longrightarrow> a < 2 ^ 63 - 1 \<Longrightarrow> int64_add a 1 = a + 1"
  by (simp add: is_int64_def int64_add_def)



section \<open>The generation check of the instance reconciler\<close>

text \<open>
  Claim C8. In the update path, a Generation string that does not parse as an int64 (the
  empty string of a missing summary among them) leaves generationMatch true, so a summary
  no older than 60 seconds is applied to the instance status and no job is queued;
  generationMatch is false exactly when the string parses to an int64 other than the
  instance's generation.
\<close>

theorem generationMatch_defaults_to_match:
  "(ParseInt g = Inl e \<longrightarrow>
      generationMatch g n \<and>
      (since \<le> 60 * second_ns \<longrightarrow> update_path g n since = UpdateInstanceStatus))
   \<and> (\<not> generationMatch g n \<longleftrightarrow> (\<exists>v. ParseInt g = Inr v \<and> v \<noteq> n))
   \<and> ParseInt [] = Inl ErrSyntax"
  by (auto simp: generationMatch_def update_path_def ParseInt_def split: sum.splits)

theorem generationMatch_defaults_to_match_witness:
  "ParseInt [] = Inl ErrSyntax \<and> generationMatch [] 3 \<and>
   update_path [] 3 (5 * second_ns) = UpdateInstanceStatus \<and>
   generationMatch ''x1'' 3 \<and> \<not> generationMatch ''4'' 3 \<and> generationMatch ''3'' 3"
proof -
  have h: "ParseInt [] = Inl ErrSyntax" by (simp add: ParseInt_def)
  have t: "5 * second_ns \<le> 60 * second_ns" by (simp add: second_ns_def)
  have x: "ParseInt ''x1'' = Inl ErrSyntax" by (simp add: strconv_defs)
  have p4: "ParseInt ''4'' = Inr 4" by (simp add: strconv_defs)
  have p3: "ParseInt ''3'' = Inr 3" by (simp add: strconv_defs)
  from generationMatch_defaults_to_match [of "[]" ErrSyntax 3 "5 * second_ns"] h t
  have a: "generationMatch [] 3 \<and> update_path [] 3 (5 * second_ns) = UpdateInstanceStatus"
    by simp
  from generationMatch_defaults_to_match [of "''x1''" ErrSyntax 3 0] x
  have b: "generationMatch ''x1'' 3" by simp
  from generationMatch_defaults_to_match [of "''4''" ErrSyntax 3 0] p4
  have c: "\<not> generationMatch ''4'' 3" by simp
  from generationMatch_defaults_to_match [of "''3''" ErrSyntax 3 0] p3
  have d: "generationMatch ''3'' 3" by simp
  from h a b c d show ?thesis by simp
qed

section \<open>ETags of the memory state provider\<close>

text \<open>
  Two Upserts of the same id with an empty request ETag both succeed, both return the id
  \<open>inst\<close> and both store ETag \<open>1\<close>: the value returned is not an ETag, and the stored
  ETag does not grow.
\<close>

theorem Upsert_returns_id_counterexample:
  "fst (Upsert Map.empty
       \<lparr>Value = \<lparr>ID = ''inst'', Body = GNil, ETag = []\<rparr>, Options = \<lparr>UpdateStateOnly = False\<rparr>\<rparr>)
     = Returned ''inst''
   \<and> stored_etag (snd (Upsert Map.empty
       \<lparr>Value = \<lparr>ID = ''inst'', Body = GNil, ETag = []\<rparr>, Options = \<lparr>UpdateStateOnly = False\<rparr>\<rparr>))
       ''inst'' = Some ''1''
   \<and> fst (Upsert (snd (Upsert Map.empty
       \<lparr>Value = \<lparr>ID = ''inst'', Body = GNil, ETag = []\<rparr>, Options = \<lparr>UpdateStateOnly = False\<rparr>\<rparr>))
       \<lparr>Value = \<lparr>ID = ''inst'', Body = GNil, ETag = []\<rparr>, Options = \<lparr>UpdateStateOnly = False\<rparr>\<rparr>)
     = Returned ''inst''
   \<and> stored_etag (snd (Upsert (snd (Upsert Map.empty
       \<lparr>Value = \<lparr>ID = ''inst'', Body = GNil, ETag = []\<rparr>, Options = \<lparr>UpdateStateOnly = False\<rparr>\<rparr>))
       \<lparr>Value = \<lparr>ID = ''inst'', Body = GNil, ETag = []\<rparr>, Options = \<lparr>UpdateStateOnly = False\<rparr>\<rparr>))
       ''inst'' = Some ''1''"
  by (simp add: Upsert_def next_etag_def stored_etag_def)

lemma Upsert_returned:
  assumes "Upsert s r = (Returned x, s')"
  shows "x = ID (Value r) \<and> stored_etag s' (ID (Value r)) = Some (next_etag (ETag (Value r)))"
  using assms
  by (auto simp: Upsert_def Let_def stored_etag_def split: if_splits option.splits stored.splits sum.splits)

text \<open>
  Claim C2, as the code has it. A successful Upsert returns the entry's id and stores the
  entry with an ETag computed from the ETag of the request: \<open>1\<close> when that is empty
  or does not parse as an int64, the decimal of parse(request ETag) + 1 in int64 arithmetic
  otherwise, which is the successor whenever the parsed value is below the largest int64.
\<close>

theorem Upsert_etag_amended:
  assumes "Upsert s r = (Returned x, s')"
  shows "x = ID (Value r)
     \<and> stored_etag s' (ID (Value r)) = Some (next_etag (ETag (Value r)))
     \<and> ((ETag (Value r) = [] \<or> (\<exists>e. ParseInt (ETag (Value r)) = Inl e))
          \<longrightarrow> next_etag (ETag (Value r)) = ''1'')
     \<and> (\<forall>v. ParseInt (ETag (Value r)) = Inr v \<longrightarrow>
            next_etag (ETag (Value r)) = FormatInt (int64_add v 1)
          \<and> (v < 2 ^ 63 - 1 \<longrightarrow> ParseInt (next_etag (ETag (Value r))) = Inr (v + 1)))"
proof -
  have a: "(ETag (Value r) = [] \<or> (\<exists>e. ParseInt (ETag (Value r)) = Inl e))
          \<longrightarrow> next_etag (ETag (Value r)) = ''1''"
    by (auto simp: next_etag_def)
  have b: "\<forall>v. ParseInt (ETag (Value r)) = Inr v \<longrightarrow>
            next_etag (ETag (Value r)) = FormatInt (int64_add v 1)
          \<and> (v < 2 ^ 63 - 1 \<longrightarrow> ParseInt (next_etag (ETag (Value r))) = Inr (v + 1))"
  proof (intro allI impI)
    fix v assume p: "ParseInt (ETag (Value r)) = Inr v"
    then have ne: "ETag (Value r) \<noteq> []" by (auto simp: ParseInt_def)
    with p have n: "next_etag (ETag (Value r)) = FormatInt (int64_add v 1)"
      by (simp add: next_etag_def)
    have "v < 2 ^ 63 - 1 \<longrightarrow> ParseInt (FormatInt (int64_add v 1)) = Inr (v + 1)"
    proof
      assume lt: "v < 2 ^ 63 - 1"
      from p have "is_int64 v" by (rule ParseInt_range)
      then have "int64_add v 1 = v + 1" using lt by (rule int64_add_no_overflow)
      moreover have "is_int64 (int64_add v 1)" by (rule int64_add_is_int64)
      ultimately show "ParseInt (FormatInt (int64_add v 1)) = Inr (v + 1)"
        using ParseInt_FormatInt [of "int64_add v 1"] by simp
    qed
    with n show "next_etag (ETag (Value r)) = FormatInt (int64_add v 1)
          \<and> (v < 2 ^ 63 - 1 \<longrightarrow> ParseInt (next_etag (ETag (Value r))) = Inr (v + 1))" by simp
  qed
  from Upsert_returned [OF assms] a b show ?thesis by blast
qed

theorem Upsert_etag_amended_witness:
  "fst (Upsert Map.empty
       \<lparr>Value = \<lparr>ID = ''inst'', Body = GNil, ETag = ''41''\<rparr>, Options = \<lparr>UpdateStateOnly = False\<rparr>\<rparr>)
     = Returned ''inst''
   \<and> stored_etag (snd (Upsert Map.empty
       \<lparr>Value = \<lparr>ID = ''inst'', Body = GNil, ETag = ''41''\<rparr>, Options = \<lparr>UpdateStateOnly = False\<rparr>\<rparr>))
       ''inst'' = Some ''42''
   \<and> ParseInt ''42'' = Inr 42"
proof -
  let ?r = "\<lparr>Value = \<lparr>ID = ''inst'', Body = GNil, ETag = ''41''\<rparr>, Options = \<lparr>UpdateStateOnly = False\<rparr>\<rparr>"
  have h: "Upsert Map.empty ?r = (Returned ''inst'', snd (Upsert Map.empty ?r))"
    by (simp add: Upsert_def)
  have p: "ParseInt ''41'' = Inr 41" by (simp add: strconv_defs)
  have f: "FormatInt (int64_add 41 1) = ''42''" by (simp add: strconv_defs int64_add_def formatBits.simps)
  have q: "ParseInt ''42'' = Inr 42" by (simp add: strconv_defs)
  have hf: "fst (Upsert Map.empty ?r) = Returned ''inst''" by (simp add: Upsert_def)
  from Upsert_etag_amended [OF h] p f q hf show ?thesis by simp
qed


section \<open>UpdateStateOnly\<close>

text \<open>
  Claim C10. With UpdateStateOnly and a state entry stored under the id, Upsert panics, and
  returns no classified error, when the stored body is not a map or when the JSON form of
  the new body has no status object (the key is absent, or its value is not an object).
\<close>

theorem Upsert_UpdateStateOnly_panics:
  assumes "UpdateStateOnly (Options r)"
    and "s (ID (Value r)) = Some (Entry e)"
    and "(\<forall>m. Body e \<noteq> GMap m)
       \<or> (\<forall>st. map_index (unmarshal_map (Body (Value r))) ''status'' \<noteq> GMap st)"
  shows "fst (Upsert s r) = Panicked"
  using assms
  by (auto simp: Upsert_def merge_status_def Let_def split: gval.splits sum.splits)

theorem Upsert_UpdateStateOnly_panics_witness:
  "fst (Upsert [''inst'' \<mapsto> Entry \<lparr>ID = ''inst'', Body = GStr ''plain'', ETag = ''1''\<rparr>]
     \<lparr>Value = \<lparr>ID = ''inst'', Body = GMap (fmap_of_list [(''status'', GMap fmempty)]), ETag = ''1''\<rparr>,
      Options = \<lparr>UpdateStateOnly = True\<rparr>\<rparr>) = Panicked
   \<and> fst (Upsert [''inst'' \<mapsto> Entry \<lparr>ID = ''inst'', Body = GMap fmempty, ETag = ''1''\<rparr>]
     \<lparr>Value = \<lparr>ID = ''inst'', Body = GMap (fmap_of_list [(''status'', GStr ''up'')]), ETag = ''1''\<rparr>,
      Options = \<lparr>UpdateStateOnly = True\<rparr>\<rparr>) = Panicked"
proof -
  have a: "fst (Upsert [''inst'' \<mapsto> Entry \<lparr>ID = ''inst'', Body = GStr ''plain'', ETag = ''1''\<rparr>]
     \<lparr>Value = \<lparr>ID = ''inst'', Body = GMap (fmap_of_list [(''status'', GMap fmempty)]), ETag = ''1''\<rparr>,
      Options = \<lparr>UpdateStateOnly = True\<rparr>\<rparr>) = Panicked"
    by (rule Upsert_UpdateStateOnly_panics [where e = "\<lparr>ID = ''inst'', Body = GStr ''plain'', ETag = ''1''\<rparr>"])
       simp_all
  have b: "fst (Upsert [''inst'' \<mapsto> Entry \<lparr>ID = ''inst'', Body = GMap fmempty, ETag = ''1''\<rparr>]
     \<lparr>Value = \<lparr>ID = ''inst'', Body = GMap (fmap_of_list [(''status'', GStr ''up'')]), ETag = ''1''\<rparr>,
      Options = \<lparr>UpdateStateOnly = True\<rparr>\<rparr>) = Panicked"
    by (rule Upsert_UpdateStateOnly_panics [where e = "\<lparr>ID = ''inst'', Body = GMap fmempty, ETag = ''1''\<rparr>"])
       (simp_all add: map_index_def unmarshal_map_def)
  from a b show ?thesis by simp
qed

text \<open>
  An existing entry whose body is the map \<open>{spec: x}\<close> and a new body \<open>{}\<close> without a
  status: the call panics at the type assertion on the new status, so no merged status is
  stored.
\<close>

theorem Upsert_UpdateStateOnly_no_status_counterexample:
  "fst (Upsert [''inst'' \<mapsto> Entry \<lparr>ID = ''inst'', Body = GMap (fmap_of_list [(''spec'', GStr ''x'')]), ETag = ''1''\<rparr>]
     \<lparr>Value = \<lparr>ID = ''inst'', Body = GMap fmempty, ETag = ''1''\<rparr>,
      Options = \<lparr>UpdateStateOnly = True\<rparr>\<rparr>) = Panicked"
  by (simp add: Upsert_def merge_status_def map_index_def unmarshal_map_def is_nil_def)

lemma merge_status_ok:
  assumes "Body e = GMap old"
    and "map_index (unmarshal_map nb) ''status'' = GMap newStatus"
    and "(is_nil (fmlookup old ''status'') \<and> oldStatus = fmempty)
       \<or> fmlookup old ''status'' = Some (GMap oldStatus)"
  shows "\<exists>body. merge_status k e nb s = Inr body
      \<and> fmlookup body ''status'' = Some (GMap (oldStatus ++\<^sub>f newStatus))
      \<and> (\<forall>f. f \<noteq> ''status'' \<longrightarrow> fmlookup body f = fmlookup old f)"
  using assms
  by (auto simp: merge_status_def Let_def is_nil_def)

text \<open>
  Claim C7, as the code has it. With UpdateStateOnly, an existing entry whose body is a map
  whose status is absent, nil or a map, and a new body whose JSON form has a status object:
  the call returns, the stored body's status is the old status map overridden by the new
  one, and every other field of the stored body is as before. With no entry under the id
  the call fails with NotFound and leaves the store as it was.
\<close>

theorem Upsert_UpdateStateOnly_merges_status:
  "(UpdateStateOnly (Options r) \<and> s (ID (Value r)) = Some (Entry e) \<and> Body e = GMap old
      \<and> map_index (unmarshal_map (Body (Value r))) ''status'' = GMap newStatus
      \<and> ((is_nil (fmlookup old ''status'') \<and> oldStatus = fmempty)
           \<or> fmlookup old ''status'' = Some (GMap oldStatus))
     \<longrightarrow> fst (Upsert s r) = Returned (ID (Value r))
       \<and> stored_field (snd (Upsert s r)) (ID (Value r)) ''status''
           = Some (GMap (oldStatus ++\<^sub>f newStatus))
       \<and> (\<forall>f. f \<noteq> ''status'' \<longrightarrow>
             stored_field (snd (Upsert s r)) (ID (Value r)) f = fmlookup old f))
   \<and> (UpdateStateOnly (Options r) \<and> s (ID (Value r)) = None
     \<longrightarrow> (\<exists>msg. Upsert s r = (Failed (COAError msg NotFound), s)))"
proof (intro conjI impI)
  assume a: "UpdateStateOnly (Options r) \<and> s (ID (Value r)) = Some (Entry e) \<and> Body e = GMap old
      \<and> map_index (unmarshal_map (Body (Value r))) ''status'' = GMap newStatus
      \<and> ((is_nil (fmlookup old ''status'') \<and> oldStatus = fmempty)
           \<or> fmlookup old ''status'' = Some (GMap oldStatus))"
  then obtain body where m: "merge_status (ID (Value r)) e (Body (Value r)) s = Inr body"
      and st: "fmlookup body ''status'' = Some (GMap (oldStatus ++\<^sub>f newStatus))"
      and fr: "\<forall>f. f \<noteq> ''status'' \<longrightarrow> fmlookup body f = fmlookup old f"
    using merge_status_ok [of e old "Body (Value r)" newStatus oldStatus "ID (Value r)" s] by blast
  from a m have u: "Upsert s r = (Returned (ID (Value r)),
      s(ID (Value r) \<mapsto> Entry ((Value r)\<lparr>ETag := next_etag (ETag (Value r)), Body := GMap body\<rparr>)))"
    by (simp add: Upsert_def)
  show "fst (Upsert s r) = Returned (ID (Value r))" by (simp add: u)
  show "stored_field (snd (Upsert s r)) (ID (Value r)) ''status'' = Some (GMap (oldStatus ++\<^sub>f newStatus))"
    by (simp add: u stored_field_def stored_body_def st)
  show "\<forall>f. f \<noteq> ''status'' \<longrightarrow> stored_field (snd (Upsert s r)) (ID (Value r)) f = fmlookup old f"
    by (simp add: u stored_field_def stored_body_def fr)
next
  assume "UpdateStateOnly (Options r) \<and> s (ID (Value r)) = None"
  then show "\<exists>msg. Upsert s r = (Failed (COAError msg NotFound), s)"
    by (simp add: Upsert_def)
qed

theorem Upsert_UpdateStateOnly_merges_status_witness:
  "fst (Upsert
      [''inst'' \<mapsto> Entry \<lparr>ID = ''inst'',
         Body = GMap (fmap_of_list [(''spec'', GStr ''x''),
                  (''status'', GMap (fmap_of_list [(''a'', GNum 1), (''b'', GNum 2)]))]),
         ETag = ''1''\<rparr>]
      \<lparr>Value = \<lparr>ID = ''inst'',
         Body = GStruct (fmap_of_list
                  [(''status'', GStruct (fmap_of_list [(''b'', GNum 3), (''c'', GNum 4)]))]),
         ETag = ''1''\<rparr>,
       Options = \<lparr>UpdateStateOnly = True\<rparr>\<rparr>) = Returned ''inst''
   \<and> stored_field (snd (Upsert
      [''inst'' \<mapsto> Entry \<lparr>ID = ''inst'',
         Body = GMap (fmap_of_list [(''spec'', GStr ''x''),
                  (''status'', GMap (fmap_of_list [(''a'', GNum 1), (''b'', GNum 2)]))]),
         ETag = ''1''\<rparr>]
      \<lparr>Value = \<lparr>ID = ''inst'',
         Body = GStruct (fmap_of_list
                  [(''status'', GStruct (fmap_of_list [(''b'', GNum 3), (''c'', GNum 4)]))]),
         ETag = ''1''\<rparr>,
       Options = \<lparr>UpdateStateOnly = True\<rparr>\<rparr>)) ''inst'' ''status''
     = Some (GMap (fmap_of_list [(''a'', GNum 1), (''b'', GNum 2)]
                   ++\<^sub>f fmmap json_roundtrip (fmap_of_list [(''b'', GNum 3), (''c'', GNum 4)])))
   \<and> stored_field (snd (Upsert
      [''inst'' \<mapsto> Entry \<lparr>ID = ''inst'',
         Body = GMap (fmap_of_list [(''spec'', GStr ''x''),
                  (''status'', GMap (fmap_of_list [(''a'', GNum 1), (''b'', GNum 2)]))]),
         ETag = ''1''\<rparr>]
      \<lparr>Value = \<lparr>ID = ''inst'',
         Body = GStruct (fmap_of_list
                  [(''status'', GStruct (fmap_of_list [(''b'', GNum 3), (''c'', GNum 4)]))]),
         ETag = ''1''\<rparr>,
       Options = \<lparr>UpdateStateOnly = True\<rparr>\<rparr>)) ''inst'' ''spec'' = Some (GStr ''x'')
   \<and> fmlookup (fmap_of_list [(''a'', GNum 1), (''b'', GNum 2)]
                   ++\<^sub>f fmmap json_roundtrip (fmap_of_list [(''b'', GNum 3), (''c'', GNum 4)])) ''b''
       = Some (GNum 3)
   \<and> (\<exists>msg. Upsert Map.empty
      \<lparr>Value = \<lparr>ID = ''inst'',
         Body = GStruct (fmap_of_list
                  [(''status'', GStruct (fmap_of_list [(''b'', GNum 3), (''c'', GNum 4)]))]),
         ETag = ''1''\<rparr>,
       Options = \<lparr>UpdateStateOnly = True\<rparr>\<rparr> = (Failed (COAError msg NotFound), Map.empty))"
proof -
  let ?old = "fmap_of_list [(''spec'', GStr ''x''),
                  (''status'', GMap (fmap_of_list [(''a'', GNum 1), (''b'', GNum 2)]))]"
  let ?e = "\<lparr>ID = ''inst'', Body = GMap ?old, ETag = ''1''\<rparr>"
  let ?s = "[''inst'' \<mapsto> Entry ?e]"
  let ?r = "\<lparr>Value = \<lparr>ID = ''inst'',
         Body = GStruct (fmap_of_list
                  [(''status'', GStruct (fmap_of_list [(''b'', GNum 3), (''c'', GNum 4)]))]),
         ETag = ''1''\<rparr>,
       Options = \<lparr>UpdateStateOnly = True\<rparr>\<rparr>"
  let ?new = "fmmap json_roundtrip (fmap_of_list [(''b'', GNum 3), (''c'', GNum 4)])"
  let ?os = "fmap_of_list [(''a'', GNum 1), (''b'', GNum 2)]"
  have h: "UpdateStateOnly (Options ?r) \<and> ?s (ID (Value ?r)) = Some (Entry ?e) \<and> Body ?e = GMap ?old
      \<and> map_index (unmarshal_map (Body (Value ?r))) ''status'' = GMap ?new
      \<and> ((is_nil (fmlookup ?old ''status'') \<and> ?os = fmempty)
           \<or> fmlookup ?old ''status'' = Some (GMap ?os))"
    by (simp add: map_index_def unmarshal_map_def)
  have k: "fmlookup (?os ++\<^sub>f ?new) ''b'' = Some (GNum 3)" by simp
  have n: "UpdateStateOnly (Options ?r) \<and> Map.empty (ID (Value ?r)) = None" by simp
  have nf: "\<exists>msg. Upsert Map.empty ?r = (Failed (COAError msg NotFound), Map.empty)"
    using Upsert_UpdateStateOnly_merges_status [of ?r Map.empty] n by blast
  from Upsert_UpdateStateOnly_merges_status [of ?r ?s ?e ?old ?new ?os] h k nf
  show ?thesis by simp
qed

section \<open>Apply over MQTT\<close>

text \<open>
  Claim C6. After a successful publish, when no response is offered on the Apply channel
  before the 8 second timer fires, Apply returns an InternalError with the message
  \<open>didn't get response to Apply() call over MQTT\<close>. When a response tagged
  \<open>TargetProvider-Apply\<close> is received before the deadline, Apply returns nil exactly when
  its state is OK or Accepted, and otherwise an error with the response's state and its
  body as a string.
\<close>

theorem mqtt_Apply_timeout_and_response:
  "((arrival = None \<or> (\<exists>t r. arrival = Some (t, r) \<and> apply_deadline < t)) \<longrightarrow>
      mqtt_Apply None arrival pick
        = Some (COAError (''didn'' @ [CHR 0x27] @ ''t get response to Apply() call over MQTT'')
                  InternalError))
   \<and> (on_message c = Some (ApplyChan, p) \<and> t' < apply_deadline \<longrightarrow>
        (mqtt_Apply None (Some (t', p)) pick = None
           \<longleftrightarrow> RespState c = OK \<or> RespState c = Accepted)
      \<and> (\<not> (RespState c = OK \<or> RespState c = Accepted) \<longrightarrow>
           mqtt_Apply None (Some (t', p)) pick = Some (COAError (RespBody c) (RespState c))))"
  by (auto simp: mqtt_Apply_def select_recv_def on_message_def proxyResponse_def Let_def
           split: option.splits if_splits)

theorem mqtt_Apply_timeout_and_response_witness:
  "mqtt_Apply None None False
     = Some (COAError (''didn'' @ [CHR 0x27] @ ''t get response to Apply() call over MQTT'')
               InternalError)
   \<and> mqtt_Apply None (Some (3 * second_ns,
        \<lparr>IsOK = False, PState = 404, Payload = PString ''no such instance''\<rparr>)) False
     = Some (COAError ''no such instance'' 404)"
proof -
  let ?c = "\<lparr>RespState = 404, RespBody = ''no such instance'',
             RespMetadata = [''call-context'' \<mapsto> ''TargetProvider-Apply'']\<rparr>"
  let ?p = "\<lparr>IsOK = False, PState = 404, Payload = PString ''no such instance''\<rparr>"
  have h: "on_message ?c = Some (ApplyChan, ?p) \<and> 3 * second_ns < apply_deadline"
    by (simp add: on_message_def proxyResponse_def OK_def Accepted_def apply_deadline_def
          second_ns_def)
  have n: "\<not> (RespState ?c = OK \<or> RespState ?c = Accepted)"
    by (simp add: OK_def Accepted_def)
  from mqtt_Apply_timeout_and_response [of None False ?c ?p "3 * second_ns"] h n
  show ?thesis by simp
qed


section \<open>Skip detection\<close>

lemma delete_pending_iff:
  "delete_pending name role cs \<longleftrightarrow> (\<exists>c \<in> set cs. Name c = name \<and> role \<noteq> [])"
  by (induction cs) auto

lemma find_current_eq:
  "find_current name role cs =
     (if role \<noteq> [] \<and> \<not> HasPrefix role ''-'' then find (\<lambda>c. Name c = name) cs else None)"
  by (induction cs) auto

lemma find_distinct_names:
  "distinct (map Name cs) \<Longrightarrow> c \<in> set cs \<Longrightarrow> find (\<lambda>x. Name x = Name c) cs = Some c"
  by (induction cs) (auto simp: image_iff)

lemma find_Some_mem: "find P cs = Some c \<Longrightarrow> c \<in> set cs \<and> P c"
  by (induction cs) (auto split: if_splits)

lemma canSkip_loop_iff:
  "canSkip_loop changed steps target cur st
     \<longleftrightarrow> (\<forall>newCom \<in> set steps. entry_skippable changed target cur st newCom)"
proof (induction steps)
  case Nil
  then show ?case by simp
next
  case (Cons a steps)
  show ?case
  proof (cases "Action a")
    case ComponentUpdate
    with Cons show ?thesis
      by (auto simp: Let_def entry_skippable_def find_current_eq split: option.splits)
  next
    case ComponentDelete
    with Cons show ?thesis
      by (auto simp: Let_def entry_skippable_def delete_pending_iff)
  qed
qed

lemma entry_skippable_distinct:
  assumes "distinct (map Name cur)"
  shows "entry_skippable changed target cur st n = entry_skippable_stated changed target cur st n"
proof -
  have "\<And>name P. (\<exists>c. find (\<lambda>x. Name x = name) cur = Some c \<and> P c)
                \<longleftrightarrow> (\<exists>c \<in> set cur. Name c = name \<and> P c)"
  proof
    fix name P
    assume "\<exists>c. find (\<lambda>x. Name x = name) cur = Some c \<and> P c"
    then show "\<exists>c \<in> set cur. Name c = name \<and> P c" by (auto dest: find_Some_mem)
  next
    fix name P
    assume "\<exists>c \<in> set cur. Name c = name \<and> P c"
    then obtain c where "c \<in> set cur" "Name c = name" "P c" by blast
    with find_distinct_names [OF assms, of c]
    show "\<exists>c. find (\<lambda>x. Name x = name) cur = Some c \<and> P c" by auto
  qed
  from this [of "Name (Component n)"
      "\<lambda>c. map_get (TargetComponent st) (target_key (Name (Component n)) target) \<noteq> []
          \<and> \<not> HasPrefix (map_get (TargetComponent st) (target_key (Name (Component n)) target)) ''-''
          \<and> \<not> changed c (Component n)"]
  show ?thesis
    unfolding entry_skippable_def entry_skippable_stated_def Let_def by blast
qed

text \<open>
  Two current components named \<open>A\<close>, the first of them changed against the desired one
  and the second unchanged: the code compares the first and refuses to skip, while some
  current component of that name is bound and unchanged.
\<close>

theorem canSkipStep_duplicate_names_counterexample:
  "\<not> canSkipStep type_differs
       \<lparr>Target = ''T'',
        StepComponents = [\<lparr>Action = ComponentUpdate,
           Component = \<lparr>Name = ''A'', Type = ''new'', Properties = fmempty, Dependencies = []\<rparr>\<rparr>],
        Role = ''container''\<rparr>
       ''T''
       [\<lparr>Name = ''A'', Type = ''old'', Properties = fmempty, Dependencies = []\<rparr>,
        \<lparr>Name = ''A'', Type = ''new'', Properties = fmempty, Dependencies = []\<rparr>]
       \<lparr>StateComponents = [], TargetComponent = [''A::T'' \<mapsto> ''container'']\<rparr>
   \<and> entry_skippable_stated type_differs ''T''
       [\<lparr>Name = ''A'', Type = ''old'', Properties = fmempty, Dependencies = []\<rparr>,
        \<lparr>Name = ''A'', Type = ''new'', Properties = fmempty, Dependencies = []\<rparr>]
       \<lparr>StateComponents = [], TargetComponent = [''A::T'' \<mapsto> ''container'']\<rparr>
       \<lparr>Action = ComponentUpdate,
        Component = \<lparr>Name = ''A'', Type = ''new'', Properties = fmempty, Dependencies = []\<rparr>\<rparr>"
  by (simp add: canSkipStep_def entry_skippable_stated_def target_key_def map_get_def HasPrefix_def
        type_differs_def)

text \<open>
  Claim C3, as the code has it. canSkipStep returns true if and only if, for every entry of
  the step: when the action is delete, no current component of that name exists while the
  key is bound in the state; when the action is update, the key is bound to a role without
  the \<open>-\<close> prefix and the first current component of that name is reported unchanged by
  the provider's rule. Where the current components have distinct names this is the
  condition with "some component of that name".
\<close>

theorem canSkipStep_iff_first_current:
  "(canSkipStep changed step target cur st
      \<longleftrightarrow> (\<forall>newCom \<in> set (StepComponents step). entry_skippable changed target cur st newCom))
   \<and> (distinct (map Name cur) \<longrightarrow>
       (canSkipStep changed step target cur st
          \<longleftrightarrow> (\<forall>newCom \<in> set (StepComponents step).
                 entry_skippable_stated changed target cur st newCom)))"
  by (simp add: canSkipStep_def canSkip_loop_iff entry_skippable_distinct)

theorem canSkipStep_iff_first_current_witness:
  "canSkipStep type_differs
       \<lparr>Target = ''T'',
        StepComponents =
          [\<lparr>Action = ComponentUpdate,
            Component = \<lparr>Name = ''A'', Type = ''container'', Properties = fmempty, Dependencies = []\<rparr>\<rparr>,
           \<lparr>Action = ComponentDelete,
            Component = \<lparr>Name = ''B'', Type = ''container'', Properties = fmempty, Dependencies = []\<rparr>\<rparr>],
        Role = ''container''\<rparr>
       ''T''
       [\<lparr>Name = ''A'', Type = ''container'', Properties = fmempty, Dependencies = []\<rparr>]
       \<lparr>StateComponents = [], TargetComponent = [''A::T'' \<mapsto> ''container'']\<rparr>"
proof -
  let ?ch = "type_differs"
  let ?a = "\<lparr>Name = ''A'', Type = ''container'', Properties = fmempty, Dependencies = []\<rparr>"
  let ?b = "\<lparr>Name = ''B'', Type = ''container'', Properties = fmempty, Dependencies = []\<rparr>"
  let ?step = "\<lparr>Target = ''T'',
        StepComponents = [\<lparr>Action = ComponentUpdate, Component = ?a\<rparr>,
                          \<lparr>Action = ComponentDelete, Component = ?b\<rparr>],
        Role = ''container''\<rparr>"
  let ?st = "\<lparr>StateComponents = [], TargetComponent = [''A::T'' \<mapsto> ''container'']\<rparr>"
  have d: "distinct (map Name [?a])" by simp
  have h: "\<forall>newCom \<in> set (StepComponents ?step). entry_skippable_stated ?ch ''T'' [?a] ?st newCom"
    by (simp add: entry_skippable_stated_def target_key_def map_get_def HasPrefix_def
          type_differs_def)
  from canSkipStep_iff_first_current [of ?ch ?step "''T''" "[?a]" ?st] d h
  show ?thesis by blast
qed


section \<open>Topological sort\<close>

lemma relax_fst:
  "length ds = length cs \<Longrightarrow>
   fst (relax name i cs ds) = map2 (\<lambda>c d. if name \<in> set (Dependencies c) then d - 1 else d) cs ds"
proof (induction cs arbitrary: i ds)
  case Nil
  then show ?case by simp
next
  case (Cons c cs)
  then obtain d ds' where ds: "ds = d # ds'" by (cases ds) auto
  with Cons show ?case by (simp add: Let_def)
qed

lemma relax_snd:
  "length ds = length cs \<Longrightarrow>
   snd (relax name i cs ds)
     = map (\<lambda>k. i + k)
         (filter (\<lambda>k. name \<in> set (Dependencies (cs ! k)) \<and> ds ! k = 1) [0..<length cs])"
proof (induction cs arbitrary: i ds)
  case Nil
  then show ?case by simp
next
  case (Cons c cs)
  then obtain d ds' where ds: "ds = d # ds'" by (cases ds) auto
  with Cons.prems have len: "length ds' = length cs" by simp
  have upt: "[0..<length (c # cs)] = 0 # map Suc [0..<length cs]"
    by (simp add: upt_conv_Cons map_Suc_upt del: upt_Suc)
  have "snd (relax name (Suc i) cs ds')
     = map (\<lambda>k. Suc i + k)
         (filter (\<lambda>k. name \<in> set (Dependencies (cs ! k)) \<and> ds' ! k = 1) [0..<length cs])"
    by (rule Cons.IH [OF len])
  then show ?case
    unfolding upt ds
    by (simp add: Let_def filter_map comp_def)
qed

lemma relax_nth:
  assumes "length ds = length cs" "k < length cs"
  shows "fst (relax name 0 cs ds) ! k
           = (if name \<in> set (Dependencies (cs ! k)) then ds ! k - 1 else ds ! k)"
  using assms by (simp add: relax_fst)

lemma relax_length: "length ds = length cs \<Longrightarrow> length (fst (relax name 0 cs ds)) = length cs"
  by (simp add: relax_fst)

lemma relax_new_set:
  assumes "length ds = length cs"
  shows "set (snd (relax name 0 cs ds))
           = {k. k < length cs \<and> name \<in> set (Dependencies (cs ! k)) \<and> ds ! k = 1}"
  using assms by (auto simp: relax_snd)

lemma relax_new_distinct:
  assumes "length ds = length cs"
  shows "distinct (snd (relax name 0 cs ds))"
  using assms by (simp add: relax_snd)

lemma queue_inv_step:
  assumes inv: "queue_inv cs ds (q # Q) P"
  shows "queue_inv cs (fst (relax (Name (cs ! q)) 0 cs ds))
           (Q @ snd (relax (Name (cs ! q)) 0 cs ds)) (P @ [q])"
proof -
  let ?name = "Name (cs ! q)"
  let ?r = "relax ?name 0 cs ds"
  from inv have len: "length ds = length cs"
    and dist: "distinct (P @ q # Q)"
    and sub: "set (P @ q # Q) \<subseteq> {..<length cs}"
    and mem: "\<forall>i<length cs. i \<in> set (P @ q # Q) \<longleftrightarrow> ds ! i \<le> 0"
    by (auto simp: queue_inv_def)
  have new: "set (snd ?r) = {k. k < length cs \<and> ?name \<in> set (Dependencies (cs ! k)) \<and> ds ! k = 1}"
    by (rule relax_new_set [OF len])
  have newd: "distinct (snd ?r)" by (rule relax_new_distinct [OF len])
  have disj: "set (snd ?r) \<inter> set (P @ q # Q) = {}"
  proof (rule ccontr)
    assume "set (snd ?r) \<inter> set (P @ q # Q) \<noteq> {}"
    then obtain k where k: "k \<in> set (snd ?r)" "k \<in> set (P @ q # Q)" by blast
    from k(1) new have "k < length cs" "ds ! k = 1" by auto
    with mem k(2) show False by auto
  qed
  have 1: "length (fst ?r) = length cs" by (rule relax_length [OF len])
  have 2: "distinct ((P @ [q]) @ Q @ snd ?r)"
    using dist newd disj by auto
  have 3: "set ((P @ [q]) @ Q @ snd ?r) \<subseteq> {..<length cs}"
    using sub new by auto
  have 4: "\<forall>i<length cs. i \<in> set ((P @ [q]) @ Q @ snd ?r) \<longleftrightarrow> fst ?r ! i \<le> 0"
  proof (intro allI impI)
    fix i assume i: "i < length cs"
    have a: "i \<in> set ((P @ [q]) @ Q @ snd ?r)
          \<longleftrightarrow> ds ! i \<le> 0 \<or> (?name \<in> set (Dependencies (cs ! i)) \<and> ds ! i = 1)"
      using mem i new by auto
    have b: "fst ?r ! i = (if ?name \<in> set (Dependencies (cs ! i)) then ds ! i - 1 else ds ! i)"
      by (rule relax_nth [OF len i])
    show "i \<in> set ((P @ [q]) @ Q @ snd ?r) \<longleftrightarrow> fst ?r ! i \<le> 0"
      unfolding a b by auto
  qed
  from 1 2 3 4 show ?thesis unfolding queue_inv_def by blast
qed

lemma degree_inv_step:
  assumes names: "distinct (map Name cs)"
    and inv: "queue_inv cs ds (q # Q) P"
    and deg: "degree_inv cs ds P"
  shows "degree_inv cs (fst (relax (Name (cs ! q)) 0 cs ds)) (P @ [q])"
proof -
  let ?name = "Name (cs ! q)"
  let ?r = "relax ?name 0 cs ds"
  from inv have len: "length ds = length cs"
    and dist: "distinct (P @ q # Q)"
    and sub: "set (P @ q # Q) \<subseteq> {..<length cs}"
    and mem: "\<forall>i<length cs. i \<in> set (P @ q # Q) \<longleftrightarrow> ds ! i \<le> 0"
    by (auto simp: queue_inv_def)
  from sub have q: "q < length cs" by auto
  from deg have card: "\<forall>i<length cs. ds ! i = int (card (set (Dependencies (cs ! i)) - names_of cs P))"
    and ord: "\<forall>k<length P. set (Dependencies (cs ! (P ! k))) \<subseteq> names_of cs (take k P)"
    by (auto simp: degree_inv_def)
  have names': "names_of cs (P @ [q]) = insert ?name (names_of cs P)"
    by (auto simp: names_of_def)
  have fresh: "?name \<notin> names_of cs P"
  proof
    assume "?name \<in> names_of cs P"
    then obtain p where p: "p \<in> set P" "Name (cs ! p) = ?name" by (auto simp: names_of_def)
    with sub have "p < length cs" by auto
    with p(2) q names have "p = q"
      by (metis distinct_conv_nth length_map nth_map)
    with p(1) dist show False by auto
  qed
  have A: "\<forall>i<length cs. fst ?r ! i = int (card (set (Dependencies (cs ! i)) - names_of cs (P @ [q])))"
  proof (intro allI impI)
    fix i assume i: "i < length cs"
    let ?D = "set (Dependencies (cs ! i)) - names_of cs P"
    have b: "fst ?r ! i = (if ?name \<in> set (Dependencies (cs ! i)) then ds ! i - 1 else ds ! i)"
      by (rule relax_nth [OF len i])
    have eq: "set (Dependencies (cs ! i)) - names_of cs (P @ [q]) = ?D - {?name}"
      unfolding names' by auto
    show "fst ?r ! i = int (card (set (Dependencies (cs ! i)) - names_of cs (P @ [q])))"
    proof (cases "?name \<in> set (Dependencies (cs ! i))")
      case True
      with fresh have "?name \<in> ?D" by simp
      then have "card (?D - {?name}) = card ?D - 1" "0 < card ?D"
        by (auto simp: card_gt_0_iff)
      with b True card i show ?thesis unfolding eq by auto
    next
      case False
      then have "?D - {?name} = ?D" by auto
      with b False card i show ?thesis unfolding eq by simp
    qed
  qed
  have qdeps: "set (Dependencies (cs ! q)) \<subseteq> names_of cs P"
  proof -
    from mem q have "ds ! q \<le> 0" by auto
    with card q have "card (set (Dependencies (cs ! q)) - names_of cs P) = 0" by auto
    then show ?thesis by auto
  qed
  have B: "\<forall>k<length (P @ [q]). set (Dependencies (cs ! ((P @ [q]) ! k))) \<subseteq> names_of cs (take k (P @ [q]))"
  proof (intro allI impI)
    fix k assume "k < length (P @ [q])"
    then consider "k < length P" | "k = length P" by fastforce
    then show "set (Dependencies (cs ! ((P @ [q]) ! k))) \<subseteq> names_of cs (take k (P @ [q]))"
    proof cases
      case 1
      with ord show ?thesis by (simp add: nth_append)
    next
      case 2
      with qdeps show ?thesis by simp
    qed
  qed
  from A B show ?thesis unfolding degree_inv_def by blast
qed

lemma kahn_loop_inv:
  assumes "queue_inv cs ds Q P" "ret = map (\<lambda>i. cs ! i) P"
  shows "\<exists>ds' P'. kahn_loop cs ds Q ret = map (\<lambda>i. cs ! i) P' \<and> queue_inv cs ds' [] P'
           \<and> (distinct (map Name cs) \<and> degree_inv cs ds P \<longrightarrow> degree_inv cs ds' P')"
  using assms
proof (induction cs ds Q ret arbitrary: P rule: kahn_loop.induct)
  case (1 components inDegrees ret)
  then show ?case by auto
next
  case (2 components inDegrees q queue ret)
  let ?r = "relax (Name (components ! q)) 0 components inDegrees"
  have step: "queue_inv components (fst ?r) (queue @ snd ?r) (P @ [q])"
    by (rule queue_inv_step [OF "2.prems"(1)])
  have ret: "ret @ [components ! q] = map (\<lambda>i. components ! i) (P @ [q])"
    using "2.prems"(2) by simp
  from "2.IH" [OF refl step ret]
  obtain ds' P' where res: "kahn_loop components (fst ?r) (queue @ snd ?r) (ret @ [components ! q])
        = map (\<lambda>i. components ! i) P'"
      and qi: "queue_inv components ds' [] P'"
      and di: "distinct (map Name components) \<and> degree_inv components (fst ?r) (P @ [q])
                 \<longrightarrow> degree_inv components ds' P'"
    by blast
  have "distinct (map Name components) \<and> degree_inv components inDegrees P
          \<longrightarrow> degree_inv components ds' P'"
    using di degree_inv_step [OF _ "2.prems"(1)] by blast
  with res qi show ?case by (auto simp: Let_def)
qed

lemma queue_inv_init:
  "queue_inv cs (map (\<lambda>c. int (length (Dependencies c))) cs)
     (filter (\<lambda>i. map (\<lambda>c. int (length (Dependencies c))) cs ! i = 0) [0..<length cs]) []"
  by (auto simp: queue_inv_def)

lemma degree_inv_init:
  assumes "\<forall>c \<in> set cs. distinct (Dependencies c)"
  shows "degree_inv cs (map (\<lambda>c. int (length (Dependencies c))) cs) []"
  using assms by (auto simp: degree_inv_def names_of_def distinct_card)

lemma sort_result:
  "\<exists>ds P. kahn_loop cs (map (\<lambda>c. int (length (Dependencies c))) cs)
       (filter (\<lambda>i. map (\<lambda>c. int (length (Dependencies c))) cs ! i = 0) [0..<length cs]) []
         = map (\<lambda>i. cs ! i) P
     \<and> queue_inv cs ds [] P
     \<and> (distinct (map Name cs) \<and> (\<forall>c \<in> set cs. distinct (Dependencies c)) \<longrightarrow> degree_inv cs ds P)"
  using kahn_loop_inv [OF queue_inv_init, of "[]" cs] degree_inv_init [of cs]
  by auto

lemma all_indices_perm:
  assumes "distinct P" "set P \<subseteq> {..<length cs}" "length P = length cs"
  shows "set P = {..<length cs}" and "mset (map (\<lambda>i. cs ! i) P) = mset cs"
proof -
  from assms(1,3) have "card (set P) = length cs" by (simp add: distinct_card)
  with assms(2) show eq: "set P = {..<length cs}"
    by (metis card_lessThan card_subset_eq finite_lessThan)
  have "mset P = mset [0..<length cs]"
    using assms(1) eq by (intro iffD1 [OF set_eq_iff_mset_eq_distinct]) (auto simp: lessThan_atLeast0)
  then have "mset (map (\<lambda>i. cs ! i) P) = mset (map (\<lambda>i. cs ! i) [0..<length cs])"
    by (metis mset_map)
  then show "mset (map (\<lambda>i. cs ! i) P) = mset cs" by (simp add: map_nth)
qed

lemma sortByDepedencies_permutation:
  "sortByDepedencies cs = Inr ret \<Longrightarrow> mset ret = mset cs"
proof -
  assume r: "sortByDepedencies cs = Inr ret"
  from sort_result [of cs] obtain ds P where
    res: "kahn_loop cs (map (\<lambda>c. int (length (Dependencies c))) cs)
       (filter (\<lambda>i. map (\<lambda>c. int (length (Dependencies c))) cs ! i = 0) [0..<length cs]) []
         = map (\<lambda>i. cs ! i) P"
    and qi: "queue_inv cs ds [] P" by blast
  from qi have dist: "distinct P" and sub: "set P \<subseteq> {..<length cs}"
    by (auto simp: queue_inv_def)
  from r res have "length P = length cs" "ret = map (\<lambda>i. cs ! i) P"
    by (auto simp: sortByDepedencies_def Let_def split: if_splits)
  with all_indices_perm(2) [OF dist sub] show ?thesis by simp
qed

lemma finite_dep_graph: "finite (dep_graph cs)"
  by (simp add: dep_graph_def)

lemma complete_order_acyclic:
  assumes names: "distinct (map Name cs)"
    and dist: "distinct P" and all: "set P = {..<length cs}"
    and ord: "\<forall>k<length P. set (Dependencies (cs ! (P ! k))) \<subseteq> names_of cs (take k P)"
  shows "acyclic (dep_graph cs) \<and> resolved cs"
proof
  define pos where "pos x = (LEAST k. k < length P \<and> Name (cs ! (P ! k)) = x)" for x
  have pos_eq: "pos (Name (cs ! (P ! k))) = k" if k: "k < length P" for k
  proof -
    have "\<And>j. j < length P \<and> Name (cs ! (P ! j)) = Name (cs ! (P ! k)) \<Longrightarrow> j = k"
    proof -
      fix j assume j: "j < length P \<and> Name (cs ! (P ! j)) = Name (cs ! (P ! k))"
      from j k all have "P ! j < length cs" "P ! k < length cs"
        by (metis lessThan_iff nth_mem)+
      with j names have "P ! j = P ! k"
        by (metis distinct_conv_nth length_map nth_map)
      with dist j k show "j = k" by (simp add: nth_eq_iff_index_eq)
    qed
    then show ?thesis unfolding pos_def using k by (intro Least_equality) auto
  qed
  have edge: "pos b < pos a" if e: "(a, b) \<in> dep_graph cs" for a b
  proof -
    from e obtain c where c: "c \<in> set cs" "a = Name c" "b \<in> set (Dependencies c)"
      by (auto simp: dep_graph_def)
    then obtain i where i: "i < length cs" "c = cs ! i" by (auto simp: in_set_conv_nth)
    with all have "i \<in> set P" by simp
    then obtain k where k: "k < length P" "P ! k = i" by (auto simp: in_set_conv_nth)
    with ord c i have "b \<in> names_of cs (take k P)" by auto
    then obtain j where j: "j < k" "b = Name (cs ! (P ! j))"
      using k(1) by (auto simp: names_of_def in_set_conv_nth)
    from j k have "pos b = j" using pos_eq [of j] by simp
    moreover from c i k have "pos a = k" using pos_eq [of k] by simp
    ultimately show ?thesis using j by simp
  qed
  show "acyclic (dep_graph cs)"
    by (rule acyclicI_order [where f = pos]) (rule edge)
  show "resolved cs"
    unfolding resolved_def
  proof (intro ballI)
    fix c d assume c: "c \<in> set cs" and d: "d \<in> set (Dependencies c)"
    then obtain i where i: "i < length cs" "c = cs ! i" by (auto simp: in_set_conv_nth)
    with all have "i \<in> set P" by simp
    then obtain k where k: "k < length P" "P ! k = i" by (auto simp: in_set_conv_nth)
    with ord d i have "d \<in> names_of cs (take k P)" by auto
    then obtain p where p: "p \<in> set P" "d = Name (cs ! p)"
      by (auto simp: names_of_def dest: in_set_takeD)
    with all have "p < length cs" by auto
    with p show "d \<in> Name ` set cs" by auto
  qed
qed

lemma incomplete_order_cyclic:
  assumes qi: "queue_inv cs ds [] P" and deg: "degree_inv cs ds P"
    and short: "length P \<noteq> length cs"
  shows "\<not> (acyclic (dep_graph cs) \<and> resolved cs)"
proof
  assume ar: "acyclic (dep_graph cs) \<and> resolved cs"
  from qi have dist: "distinct P" and sub: "set P \<subseteq> {..<length cs}"
    and mem: "\<forall>i<length cs. i \<in> set P \<longleftrightarrow> ds ! i \<le> 0"
    by (auto simp: queue_inv_def)
  from deg have card: "\<forall>i<length cs. ds ! i = int (card (set (Dependencies (cs ! i)) - names_of cs P))"
    by (simp add: degree_inv_def)
  define U where "U = {i. i < length cs \<and> i \<notin> set P}"
  define S where "S = (\<lambda>i. Name (cs ! i)) ` U"
  have "set P \<noteq> {..<length cs}"
  proof
    assume "set P = {..<length cs}"
    with dist have "length P = length cs" by (metis card_lessThan distinct_card)
    with short show False by simp
  qed
  with sub obtain u where u: "u \<in> U" unfolding U_def by blast
  then have Sne: "Name (cs ! u) \<in> S" by (simp add: S_def)
  have succ: "\<exists>b. (a, b) \<in> dep_graph cs \<and> b \<in> S" if a: "a \<in> S" for a
  proof -
    from a obtain i where i: "i < length cs" "i \<notin> set P" "a = Name (cs ! i)"
      by (auto simp: S_def U_def)
    with mem have "0 < ds ! i" by auto
    with card i have "0 < card (set (Dependencies (cs ! i)) - names_of cs P)" by auto
    then obtain d where d: "d \<in> set (Dependencies (cs ! i))" "d \<notin> names_of cs P"
      by (auto simp: card_gt_0_iff)
    from i have ci: "cs ! i \<in> set cs" by simp
    with d ar obtain c' where c': "c' \<in> set cs" "d = Name c'" by (auto simp: resolved_def)
    then obtain j where j: "j < length cs" "c' = cs ! j" by (auto simp: in_set_conv_nth)
    with d c' have "j \<notin> set P" by (auto simp: names_of_def)
    with j c' have "d \<in> S" by (auto simp: S_def U_def)
    moreover from ci d i have "(a, d) \<in> dep_graph cs" by (auto simp: dep_graph_def)
    ultimately show ?thesis by blast
  qed
  from ar have "wf ((dep_graph cs)\<inverse>)"
    by (intro finite_acyclic_wf_converse finite_dep_graph) simp
  then obtain z where z: "z \<in> S" "\<forall>y. (y, z) \<in> (dep_graph cs)\<inverse> \<longrightarrow> y \<notin> S"
    using Sne unfolding wf_eq_minimal by blast
  from succ [OF z(1)] z(2) show False by auto
qed

text \<open>
  Component \<open>B\<close> lists its dependency \<open>A\<close> twice: the graph is acyclic and resolved,
  but the in-degree of \<open>B\<close> starts at 2 and is decremented once, so the sort fails.
\<close>

theorem sortByDepedencies_repeated_dependency_counterexample:
  "sortByDepedencies
     [\<lparr>Name = ''A'', Type = ''container'', Properties = fmempty, Dependencies = []\<rparr>,
      \<lparr>Name = ''B'', Type = ''container'', Properties = fmempty, Dependencies = [''A'', ''A'']\<rparr>]
     = Inl (PlainError ''circular dependencies or unresolved dependencies detected in components'')
   \<and> acyclic (dep_graph
     [\<lparr>Name = ''A'', Type = ''container'', Properties = fmempty, Dependencies = []\<rparr>,
      \<lparr>Name = ''B'', Type = ''container'', Properties = fmempty, Dependencies = [''A'', ''A'']\<rparr>])
   \<and> resolved
     [\<lparr>Name = ''A'', Type = ''container'', Properties = fmempty, Dependencies = []\<rparr>,
      \<lparr>Name = ''B'', Type = ''container'', Properties = fmempty, Dependencies = [''A'', ''A'']\<rparr>]"
proof -
  let ?cs = "[\<lparr>Name = ''A'', Type = ''container'', Properties = fmempty, Dependencies = []\<rparr>,
      \<lparr>Name = ''B'', Type = ''container'', Properties = fmempty, Dependencies = [''A'', ''A'']\<rparr>]"
  have s: "sortByDepedencies ?cs
     = Inl (PlainError ''circular dependencies or unresolved dependencies detected in components'')"
    by (simp add: sortByDepedencies_def Let_def)
  have g: "dep_graph ?cs = {(''B'', ''A'')}" by (auto simp: dep_graph_def)
  have "acyclic {(''B'', ''A'')}"
    by (rule acyclicI_order [where f = "\<lambda>n. if n = ''B'' then 1 else (0::nat)"]) simp
  with g have a: "acyclic (dep_graph ?cs)" by simp
  have r: "resolved ?cs" by (simp add: resolved_def)
  from s a r show ?thesis by blast
qed

text \<open>
  Claim C5, as the code has it. For a list of components with pairwise distinct names in
  which no Dependencies list repeats a name, sortByDepedencies returns a permutation of the
  components if the dependency graph is acyclic and every dependency names a component of
  the list, and otherwise returns the error \<open>circular dependencies or unresolved
  dependencies detected in components\<close> and no list.
\<close>

theorem sortByDepedencies_iff_acyclic:
  assumes "distinct (map Name cs)" and "\<forall>c \<in> set cs. distinct (Dependencies c)"
  shows "(acyclic (dep_graph cs) \<and> resolved cs
            \<longrightarrow> (\<exists>ret. sortByDepedencies cs = Inr ret \<and> mset ret = mset cs))
       \<and> (\<not> (acyclic (dep_graph cs) \<and> resolved cs)
            \<longrightarrow> sortByDepedencies cs
                = Inl (PlainError ''circular dependencies or unresolved dependencies detected in components''))"
proof -
  let ?ds0 = "map (\<lambda>c. int (length (Dependencies c))) cs"
  let ?q0 = "filter (\<lambda>i. ?ds0 ! i = 0) [0..<length cs]"
  from sort_result [of cs] assms obtain ds P where
    res: "kahn_loop cs ?ds0 ?q0 [] = map (\<lambda>i. cs ! i) P"
    and qi: "queue_inv cs ds [] P" and deg: "degree_inv cs ds P"
    by blast
  from qi have dist: "distinct P" and sub: "set P \<subseteq> {..<length cs}"
    by (auto simp: queue_inv_def)
  show ?thesis
  proof (cases "length P = length cs")
    case True
    from all_indices_perm [OF dist sub True]
    have all: "set P = {..<length cs}" and perm: "mset (map (\<lambda>i. cs ! i) P) = mset cs" by auto
    from deg have "\<forall>k<length P. set (Dependencies (cs ! (P ! k))) \<subseteq> names_of cs (take k P)"
      by (simp add: degree_inv_def)
    from complete_order_acyclic [OF assms(1) dist all this]
    have ar: "acyclic (dep_graph cs) \<and> resolved cs" .
    from res True have "sortByDepedencies cs = Inr (map (\<lambda>i. cs ! i) P)"
      by (simp add: sortByDepedencies_def Let_def)
    with perm ar show ?thesis by simp
  next
    case False
    from incomplete_order_cyclic [OF qi deg False]
    have nar: "\<not> (acyclic (dep_graph cs) \<and> resolved cs)" .
    from res False have "sortByDepedencies cs
        = Inl (PlainError ''circular dependencies or unresolved dependencies detected in components'')"
      by (simp add: sortByDepedencies_def Let_def)
    with nar show ?thesis by simp
  qed
qed

theorem sortByDepedencies_iff_acyclic_witness:
  "(\<exists>ret. sortByDepedencies
     [\<lparr>Name = ''B'', Type = ''container'', Properties = fmempty, Dependencies = [''A'']\<rparr>,
      \<lparr>Name = ''A'', Type = ''container'', Properties = fmempty, Dependencies = []\<rparr>] = Inr ret
     \<and> mset ret = mset
     [\<lparr>Name = ''B'', Type = ''container'', Properties = fmempty, Dependencies = [''A'']\<rparr>,
      \<lparr>Name = ''A'', Type = ''container'', Properties = fmempty, Dependencies = []\<rparr>])
   \<and> sortByDepedencies
     [\<lparr>Name = ''A'', Type = ''container'', Properties = fmempty, Dependencies = [''B'']\<rparr>,
      \<lparr>Name = ''B'', Type = ''container'', Properties = fmempty, Dependencies = [''A'']\<rparr>]
     = Inl (PlainError ''circular dependencies or unresolved dependencies detected in components'')"
proof -
  let ?ok = "[\<lparr>Name = ''B'', Type = ''container'', Properties = fmempty, Dependencies = [''A'']\<rparr>,
      \<lparr>Name = ''A'', Type = ''container'', Properties = fmempty, Dependencies = []\<rparr>]"
  let ?cyc = "[\<lparr>Name = ''A'', Type = ''container'', Properties = fmempty, Dependencies = [''B'']\<rparr>,
      \<lparr>Name = ''B'', Type = ''container'', Properties = fmempty, Dependencies = [''A'']\<rparr>]"
  have d1: "distinct (map Name ?ok)" "\<forall>c \<in> set ?ok. distinct (Dependencies c)" by simp_all
  have d2: "distinct (map Name ?cyc)" "\<forall>c \<in> set ?cyc. distinct (Dependencies c)" by simp_all
  have g: "dep_graph ?ok = {(''B'', ''A'')}" by (auto simp: dep_graph_def)
  have "acyclic {(''B'', ''A'')}"
    by (rule acyclicI_order [where f = "\<lambda>n. if n = ''B'' then 1 else (0::nat)"]) simp
  with g have a: "acyclic (dep_graph ?ok) \<and> resolved ?ok" by (simp add: resolved_def)
  have "(''A'', ''B'') \<in> dep_graph ?cyc" "(''B'', ''A'') \<in> dep_graph ?cyc"
    by (auto simp: dep_graph_def)
  then have "(''A'', ''A'') \<in> (dep_graph ?cyc)\<^sup>+"
    by (meson trancl.r_into_trancl trancl_trans)
  then have c: "\<not> (acyclic (dep_graph ?cyc) \<and> resolved ?cyc)" by (auto simp: acyclic_def)
  from sortByDepedencies_iff_acyclic [OF d1] a
  have 1: "\<exists>ret. sortByDepedencies ?ok = Inr ret \<and> mset ret = mset ?ok" by blast
  from sortByDepedencies_iff_acyclic [OF d2] c
  have 2: "sortByDepedencies ?cyc
     = Inl (PlainError ''circular dependencies or unresolved dependencies detected in components'')"
    by blast
  from 1 2 show ?thesis by blast
qed


section \<open>Reconcile\<close>

lemmas sample_defs = sample_component_def sample_step_def sample_deployment_def sample_state_def
  sample_provider_def sample_manager_def sample_environment_def sample_entry_def

lemmas reconcile_defs = Reconcile_def reconcile_plan_def reconcile_finish_def initial_loop_state_def
  run_step_def Get_def getPreviousState_def saveSummary_def early_return_def step_filtered_def
  resolve_provider_def getTargetStateForStep_def target_of_def findAgent_def canSkipStep_def
  target_key_def map_get_def HasPrefix_def retryCount_def sum_results_def
  ENV_NAME_def










text \<open>
  Claim C1 at a concrete call. The deployment has the targets \<open>T1\<close> and \<open>T2\<close>, the
  call names the target \<open>T1\<close>, and the step of \<open>T1\<close> is skipped: no step ran, so
  Skipped is true, but SuccessCount is 1 and TargetCount is 2. The assignment
  \<^verbatim>\<open>summary.SuccessCount = summary.TargetCount\<close> of line 413 is overwritten at line
  421 by the sum of the target results.
\<close>

theorem Reconcile_skipped_success_count:
  "snd (fst (Reconcile (sample_environment (Inr sample_entry)) (sample_manager None) []
          sample_deployment False ''default'' ''T1'')) = None
   \<and> Skipped (fst (fst (Reconcile (sample_environment (Inr sample_entry)) (sample_manager None) []
          sample_deployment False ''default'' ''T1'')))
   \<and> SuccessCount (fst (fst (Reconcile (sample_environment (Inr sample_entry)) (sample_manager None) []
          sample_deployment False ''default'' ''T1''))) = 1
   \<and> TargetCount (fst (fst (Reconcile (sample_environment (Inr sample_entry)) (sample_manager None) []
          sample_deployment False ''default'' ''T1''))) = 2"
  by (simp add: reconcile_defs sample_defs Let_def)


section \<open>Reconcile without a previous state\<close>





lemma run_step_filtered: "step_filtered s tn step \<Longrightarrow> run_step env s d ns tn prev cur step ls = Finished ls"
  by (simp add: run_step_def)






end
